theory Spec2Isabelle
  imports Complex_Main "HOL-Library.Log_Nat" "HOL-Library.Multiset"
begin

section \<open>Python values and exceptions\<close>

text \<open>
  The streaming least-squares script \<^verbatim>\<open>linearRegression.py\<close> and its helper module
  \<^verbatim>\<open>functions.py\<close> are embedded as HOL functions. A Python exception is a value of
  \<open>error\<close>; a computation that may raise returns \<open>error + 'a\<close> with \<open>Inl\<close> for the
  exception. Python integers are \<open>int\<close>. A Python string is a \<open>string\<close>: the records
  are decoded as Latin-1, so every character is one of the 256 code points of \<open>char\<close>
  (file names are taken in the same range).
\<close>

datatype error =
    ValueError | ZeroDivisionError | AssertionError | IndexError | KeyError
  | TypeError | NameError | OverflowError | BadZipFile

subsection \<open>Indexing and slicing of strings\<close>

text \<open>\<^verbatim>\<open>s[i]\<close>: a negative index counts from the end; out of range raises IndexError.\<close>

definition py_index :: "string \<Rightarrow> int \<Rightarrow> error + string" where
  "py_index s i =
     (let len = int (length s); j = (if i < 0 then len + i else i)
      in if 0 \<le> j \<and> j < len then Inr [s ! nat j] else Inl IndexError)"

text \<open>\<^verbatim>\<open>s[i:j]\<close>: bounds are clamped to the string, never an error.\<close>

definition clamp_bound :: "int \<Rightarrow> int \<Rightarrow> nat" where
  "clamp_bound len i = nat (if i < 0 then max (len + i) 0 else min i len)"

definition py_slice :: "string \<Rightarrow> int \<Rightarrow> int \<Rightarrow> string" where
  "py_slice s i j =
     (let len = int (length s); lo = clamp_bound len i; hi = clamp_bound len j
      in take (hi - lo) (drop lo s))"

subsection \<open>The built-in \<^verbatim>\<open>int(str)\<close>\<close>

definition is_digit :: "char \<Rightarrow> bool" where
  "is_digit c = (let k = (of_char c :: nat) in 48 \<le> k \<and> k \<le> 57)"

definition digit_val :: "char \<Rightarrow> int" where
  "digit_val c = of_char c - 48"

text \<open>The white space the number parsers skip: tab, LF, VT, FF, CR and the blank.\<close>

definition ascii_space :: "char \<Rightarrow> bool" where
  "ascii_space c = (let k = (of_char c :: nat) in (9 \<le> k \<and> k \<le> 13) \<or> k = 32)"

text \<open>
  Before parsing, CPython rewrites the characters from 127 on: the two Latin-1 spaces
  (NEL, NBSP) become a blank, anything else an invalid character (Latin-1 has no decimal
  digit above ASCII).
\<close>

definition to_ascii :: "char \<Rightarrow> char" where
  "to_ascii c =
     (let k = (of_char c :: nat)
      in if k < 127 then c else if k = 133 \<or> k = 160 then CHR '' '' else CHR ''?'')"

definition digits_value :: "string \<Rightarrow> int" where
  "digits_value ds = foldl (\<lambda>a c. 10 * a + digit_val c) 0 ds"

fun double_underscore :: "string \<Rightarrow> bool" where
  "double_underscore (c # d # r) =
     ((c = CHR ''_'' \<and> d = CHR ''_'') \<or> double_underscore (d # r))"
| "double_underscore r = False"

definition digit_or_underscore :: "char \<Rightarrow> bool" where
  "digit_or_underscore c = (is_digit c \<or> c = CHR ''_'')"

text \<open>The default limit on the number of digits \<^verbatim>\<open>int\<close> converts.\<close>

definition max_str_digits :: nat where
  "max_str_digits = 4300"

definition strip_sign :: "string \<Rightarrow> bool \<times> string" where
  "strip_sign t =
     (case t of
        [] \<Rightarrow> (False, [])
      | c # r \<Rightarrow>
          if c = CHR ''-'' then (True, r)
          else if c = CHR ''+'' then (False, r) else (False, t))"

text \<open>
  \<^verbatim>\<open>int(s)\<close> in base 10: optional white space, an optional sign, digits with single
  underscores between them, optional white space. \<open>None\<close> is ValueError.
\<close>

definition py_int :: "string \<Rightarrow> int option" where
  "py_int s =
     (let t = dropWhile ascii_space (map to_ascii s);
          (neg, u) = strip_sign t;
          body = takeWhile digit_or_underscore u;
          rest = dropWhile digit_or_underscore u;
          ds = filter is_digit body
      in if body \<noteq> [] \<and> is_digit (hd body) \<and> is_digit (last body)
            \<and> \<not> double_underscore body \<and> list_all ascii_space rest
            \<and> length ds \<le> max_str_digits
         then Some ((if neg then - 1 else 1) * digits_value ds)
         else None)"

definition int_of_str :: "string \<Rightarrow> error + int" where
  "int_of_str s = (case py_int s of None \<Rightarrow> Inl ValueError | Some i \<Rightarrow> Inr i)"


subsection \<open>Floating-point numbers\<close>

text \<open>
  A Python \<^verbatim>\<open>float\<close> and a numpy \<^verbatim>\<open>float64\<close> are IEEE 754 doubles. A finite double
  is modelled by the rational it denotes, and every operation rounds its exact result to
  the nearest double, ties to even. The sign of zero is not modelled: the program never
  observes it.
\<close>

datatype pyfloat = Fin rat | PInf | NInf | NaN

definition pow2 :: "int \<Rightarrow> rat" where
  "pow2 k = (if 0 \<le> k then 2 ^ nat k else 1 / 2 ^ nat (- k))"

text \<open>\<open>\<lfloor>log\<^sub>2 a\<rfloor>\<close> of a positive rational, from the bit lengths of its fraction.\<close>

definition ilog2 :: "rat \<Rightarrow> int" where
  "ilog2 a =
     (let (p, q) = quotient_of a; k = bitlen p - bitlen q
      in if pow2 k \<le> a then k else k - 1)"

definition round_half_even :: "rat \<Rightarrow> int" where
  "round_half_even r =
     (let f = \<lfloor>r\<rfloor>; d = r - of_int f
      in if d < 1 / 2 then f else if 1 / 2 < d then f + 1
         else if even f then f else f + 1)"

text \<open>
  The nearest double: 53 significant bits, the least exponent \<open>-1022\<close> (below it the
  spacing stays \<open>2\<^sup>-\<^sup>1\<^sup>0\<^sup>7\<^sup>4\<close>), infinity from \<open>2\<^sup>1\<^sup>0\<^sup>2\<^sup>4\<close> on.
\<close>

definition round_double :: "rat \<Rightarrow> pyfloat" where
  "round_double a =
     (if a = 0 then Fin 0
      else
        let m = \<bar>a\<bar>;
            e = max (ilog2 m) (- 1022);
            u = pow2 (e - 52);
            v = of_int (round_half_even (m / u)) * u
        in if pow2 1024 \<le> v then (if 0 < a then PInf else NInf)
           else Fin (if 0 < a then v else - v))"

fun fneg :: "pyfloat \<Rightarrow> pyfloat" where
  "fneg (Fin a) = Fin (- a)"
| "fneg PInf = NInf"
| "fneg NInf = PInf"
| "fneg NaN = NaN"

fun fadd :: "pyfloat \<Rightarrow> pyfloat \<Rightarrow> pyfloat" where
  "fadd (Fin a) (Fin b) = round_double (a + b)"
| "fadd NaN y = NaN"
| "fadd x NaN = NaN"
| "fadd PInf NInf = NaN"
| "fadd NInf PInf = NaN"
| "fadd PInf y = PInf"
| "fadd NInf y = NInf"
| "fadd x PInf = PInf"
| "fadd x NInf = NInf"

definition fsub :: "pyfloat \<Rightarrow> pyfloat \<Rightarrow> pyfloat" where
  "fsub x y = fadd x (fneg y)"

definition signed_inf :: "bool \<Rightarrow> pyfloat" where
  "signed_inf positive = (if positive then PInf else NInf)"

fun fmul :: "pyfloat \<Rightarrow> pyfloat \<Rightarrow> pyfloat" where
  "fmul (Fin a) (Fin b) = round_double (a * b)"
| "fmul NaN y = NaN"
| "fmul x NaN = NaN"
| "fmul (Fin a) PInf = (if a = 0 then NaN else signed_inf (0 < a))"
| "fmul (Fin a) NInf = (if a = 0 then NaN else signed_inf (a < 0))"
| "fmul PInf (Fin b) = (if b = 0 then NaN else signed_inf (0 < b))"
| "fmul NInf (Fin b) = (if b = 0 then NaN else signed_inf (b < 0))"
| "fmul PInf PInf = PInf"
| "fmul PInf NInf = NInf"
| "fmul NInf PInf = NInf"
| "fmul NInf NInf = PInf"

text \<open>
  Division as numpy does it: a zero divisor gives an infinity or NaN (with a warning),
  never an exception.
\<close>

fun np_div :: "pyfloat \<Rightarrow> pyfloat \<Rightarrow> pyfloat" where
  "np_div (Fin a) (Fin b) =
     (if b = 0 then (if a = 0 then NaN else signed_inf (0 < a)) else round_double (a / b))"
| "np_div NaN y = NaN"
| "np_div x NaN = NaN"
| "np_div (Fin a) y = Fin 0"
| "np_div PInf (Fin b) = signed_inf (0 \<le> b)"
| "np_div NInf (Fin b) = signed_inf (b < 0)"
| "np_div x y = NaN"

text \<open>\<^verbatim>\<open>x < y\<close>: false whenever an operand is NaN.\<close>

fun flt :: "pyfloat \<Rightarrow> pyfloat \<Rightarrow> bool" where
  "flt (Fin a) (Fin b) = (a < b)"
| "flt NaN y = False"
| "flt x NaN = False"
| "flt x NInf = False"
| "flt PInf y = False"
| "flt x y = True"

text \<open>
  An integer as a double. Python raises OverflowError when the integer is beyond the
  doubles; numpy's conversion of the small integers of a design vector is the same
  rounding.
\<close>

definition np_float :: "int \<Rightarrow> pyfloat" where
  "np_float k = round_double (of_int k)"

definition float_of_int :: "int \<Rightarrow> error + pyfloat" where
  "float_of_int k =
     (case round_double (of_int k) of Fin v \<Rightarrow> Inr (Fin v) | _ \<Rightarrow> Inl OverflowError)"

text \<open>\<^verbatim>\<open>a / b\<close> on two Python integers: the exact quotient, rounded once.\<close>

definition int_truediv :: "int \<Rightarrow> int \<Rightarrow> error + pyfloat" where
  "int_truediv a b =
     (if b = 0 then Inl ZeroDivisionError
      else case round_double (of_int a / of_int b) of
             Fin v \<Rightarrow> Inr (Fin v) | _ \<Rightarrow> Inl OverflowError)"

text \<open>\<^verbatim>\<open>x / k\<close> on a Python float and a Python integer.\<close>

definition float_div_int :: "pyfloat \<Rightarrow> int \<Rightarrow> error + pyfloat" where
  "float_div_int x k =
     (case float_of_int k of
        Inl e \<Rightarrow> Inl e
      | Inr d \<Rightarrow> if d = Fin 0 then Inl ZeroDivisionError else Inr (np_div x d))"

text \<open>
  \<^verbatim>\<open>round(x, 3)\<close>: the exact value of the double rounded to three decimals, ties to
  even, and that decimal rounded to a double.
\<close>

fun round3 :: "pyfloat \<Rightarrow> pyfloat" where
  "round3 (Fin a) = round_double (of_int (round_half_even (a * 1000)) / 1000)"
| "round3 x = x"

subsection \<open>The built-in \<^verbatim>\<open>float(str)\<close>\<close>

text \<open>An underscore must stand between two digits; \<open>prev\<close> is the character before.\<close>

fun underscores_ok :: "char \<Rightarrow> string \<Rightarrow> bool" where
  "underscores_ok prev [] = (prev \<noteq> CHR ''_'')"
| "underscores_ok prev (c # r) =
     ((if c = CHR ''_'' then is_digit prev
       else if prev = CHR ''_'' then is_digit c else True)
      \<and> underscores_ok c r)"

definition lower :: "char \<Rightarrow> char" where
  "lower c =
     (let k = (of_char c :: nat) in if 65 \<le> k \<and> k \<le> 90 then char_of (k + 32) else c)"

definition inf_or_nan :: "bool \<Rightarrow> string \<Rightarrow> pyfloat option" where
  "inf_or_nan neg u =
     (let w = map lower u
      in if w = ''inf'' \<or> w = ''infinity'' then Some (signed_inf (\<not> neg))
         else if w = ''nan'' then Some NaN else None)"

text \<open>
  The exponent part: \<open>e\<close> or \<open>E\<close>, an optional sign and at least one digit. Returns the
  exponent and what follows it; without digits the \<open>e\<close> is not part of the number.
\<close>

definition exponent_part :: "string \<Rightarrow> int \<times> string" where
  "exponent_part r =
     (case r of
        [] \<Rightarrow> (0, r)
      | c # r' \<Rightarrow>
          if c = CHR ''e'' \<or> c = CHR ''E'' then
            (let (eneg, r'') = strip_sign r';
                 ed = takeWhile is_digit r''
             in if ed = [] then (0, r)
                else ((if eneg then - 1 else 1) * digits_value ed,
                      dropWhile is_digit r''))
          else (0, r))"

definition pow10 :: "int \<Rightarrow> rat" where
  "pow10 k = (if 0 \<le> k then 10 ^ nat k else 1 / 10 ^ nat (- k))"

text \<open>
  The syntax of \<^verbatim>\<open>float(s)\<close>: white space is stripped, underscores between digits are
  dropped, then a sign and either a decimal number with an optional exponent (\<open>Inr\<close>, its
  exact value), or an infinity or NaN (\<open>Inl\<close>). \<open>None\<close> is ValueError.
\<close>

definition float_literal :: "string \<Rightarrow> (pyfloat + rat) option" where
  "float_literal s =
     (let t0 = map to_ascii s in
      if \<not> underscores_ok (CHR 0x00) t0 then None
      else
        let t1 = filter (\<lambda>c. c \<noteq> CHR ''_'') t0;
            t2 = rev (dropWhile ascii_space (rev (dropWhile ascii_space t1)));
            (neg, u) = strip_sign t2;
            ip = takeWhile is_digit u;
            r1 = dropWhile is_digit u;
            (fp, r2) = (case r1 of
                          [] \<Rightarrow> ([], r1)
                        | c # r \<Rightarrow>
                            if c = CHR ''.'' then (takeWhile is_digit r, dropWhile is_digit r)
                            else ([], r1))
        in if ip = [] \<and> fp = [] then map_option Inl (inf_or_nan neg u)
           else
             let (ex, r3) = exponent_part r2;
                 v = of_int (digits_value (ip @ fp)) * pow10 (ex - int (length fp))
             in if r3 = [] then Some (Inr (if neg then - v else v)) else None)"

text \<open>\<^verbatim>\<open>float(s)\<close>: the decimal is rounded once to the nearest double.\<close>

definition py_float :: "string \<Rightarrow> pyfloat option" where
  "py_float s =
     (case float_literal s of
        None \<Rightarrow> None
      | Some (Inl x) \<Rightarrow> Some x
      | Some (Inr v) \<Rightarrow> Some (round_double v))"

definition float_of_str :: "string \<Rightarrow> error + pyfloat" where
  "float_of_str s = (case py_float s of None \<Rightarrow> Inl ValueError | Some x \<Rightarrow> Inr x)"

section \<open>The field decoders of \<^verbatim>\<open>functions.py\<close>\<close>

definition getIncome :: "string \<Rightarrow> error + int" where
  "getIncome incomeString =
     (if incomeString \<noteq> ''  '' then int_of_str incomeString else Inr 9)"

definition getEducation :: "string \<Rightarrow> error + int" where
  "getEducation educationString =
     (if educationString \<noteq> '' '' then int_of_str educationString else Inr 9)"

text \<open>
  \<^verbatim>\<open>getHlth\<close>: the value is computed first, then the assertion
  \<^verbatim>\<open>assert genhlth in (-1, 1, 2, 3, 4, 5, 6)\<close> is checked.
\<close>

definition hlth_value :: "string \<Rightarrow> error + int" where
  "hlth_value hlthString =
     (if hlthString \<noteq> '' '' then
        (case int_of_str hlthString of
           Inl e \<Rightarrow> Inl e
         | Inr genhlth \<Rightarrow> Inr (if genhlth > 6 then - 1 else genhlth))
      else Inr (- 1))"

definition getHlth :: "string \<Rightarrow> error + int" where
  "getHlth hlthString =
     (case hlth_value hlthString of
        Inl e \<Rightarrow> Inl e
      | Inr genhlth \<Rightarrow>
          if genhlth \<in> {- 1, 1, 2, 3, 4, 5, 6} then Inr genhlth else Inl AssertionError)"


text \<open>
  \<^verbatim>\<open>convertBMI\<close>: four \<^verbatim>\<open>if\<close> statements in sequence, each overwriting \<^verbatim>\<open>bmi\<close> when its
  year test holds and the string is not that year's sentinel. The literals \<^verbatim>\<open>0.1\<close>,
  \<^verbatim>\<open>0.0001\<close> and \<^verbatim>\<open>0.01\<close> are the doubles nearest to them.
\<close>

definition scaled :: "rat \<Rightarrow> string \<Rightarrow> error + pyfloat" where
  "scaled literal bmiString =
     (case float_of_str bmiString of
        Inl e \<Rightarrow> Inl e
      | Inr x \<Rightarrow> Inr (fmul (round_double literal) x))"

definition convertBMI :: "string \<Rightarrow> int \<Rightarrow> error + pyfloat" where
  "convertBMI bmiString shortYear =
     (case (if shortYear = 0 \<and> bmiString \<noteq> ''999''
            then scaled (1 / 10) bmiString else Inr (Fin 0)) of
        Inl e \<Rightarrow> Inl e
      | Inr bmi0 \<Rightarrow>
     (case (if shortYear = 1 \<and> bmiString \<noteq> ''999999''
            then scaled (1 / 10000) bmiString else Inr bmi0) of
        Inl e \<Rightarrow> Inl e
      | Inr bmi1 \<Rightarrow>
     (case (if 2 \<le> shortYear \<and> shortYear \<le> 10 \<and> bmiString \<noteq> ''9999''
            then scaled (1 / 100) bmiString else Inr bmi1) of
        Inl e \<Rightarrow> Inl e
      | Inr bmi2 \<Rightarrow>
          if shortYear > 10 \<and> bmiString \<noteq> ''    ''
          then scaled (1 / 100) bmiString else Inr bmi2)))"

section \<open>The field layout table\<close>

text \<open>
  \<^verbatim>\<open>fieldDictBuild\<close>: the keys 0, 1, 2, 3, 11, 12, 13, 14 exist; only 11 to 14 are given
  a layout, the others keep the value \<^verbatim>\<open>None\<close>. The outer \<open>option\<close> is the presence of
  the key, the inner one the value.
\<close>

record layout =
  genhlth_pos :: int
  bmi_range :: "int \<times> int"
  income_range :: "int \<times> int"
  education_pos :: int

definition fieldDict :: "int \<Rightarrow> layout option option" where
  "fieldDict k =
     (if k = 11 then
        Some (Some \<lparr>genhlth_pos = 73, bmi_range = (1533, 1536),
                    income_range = (124, 125), education_pos = 122\<rparr>)
      else if k = 12 then
        Some (Some \<lparr>genhlth_pos = 73, bmi_range = (1644, 1647),
                    income_range = (116, 117), education_pos = 114\<rparr>)
      else if k = 13 then
        Some (Some \<lparr>genhlth_pos = 80, bmi_range = (2192, 2195),
                    income_range = (152, 153), education_pos = 150\<rparr>)
      else if k = 14 then
        Some (Some \<lparr>genhlth_pos = 80, bmi_range = (2247, 2250),
                    income_range = (152, 153), education_pos = 150\<rparr>)
      else if k = 0 \<or> k = 1 \<or> k = 2 \<or> k = 3 then Some None
      else None)"

section \<open>The accumulator of \<^verbatim>\<open>linearRegression.py\<close>\<close>

type_synonym vec = "pyfloat list"
type_synonym mat = "pyfloat list list"

text \<open>What the script prints, line by line; the formatting of a number is not modelled.\<close>

datatype line =
    FileName string
  | Coefficients vec
  | Header "string list"
  | Summary int vec pyfloat

text \<open>
  The module-level variables the loop updates. \<open>b\<close> is unbound until the first progress
  report assigns it.
\<close>

record state =
  A :: mat
  z :: vec
  sumSqrs :: int
  n :: int
  b :: "vec option"
  out :: "line list"

definition q :: int where
  "q = 4"

definition init :: state where
  "init = \<lparr>A = replicate (nat q) (replicate (nat q) (Fin 0)),
            z = replicate (nat q) (Fin 0),
            sumSqrs = 0, n = 0, b = None, out = []\<rparr>"

text \<open>
  What the script takes from outside: numpy's \<^verbatim>\<open>np.linalg.pinv(A) @ z\<close>, the product
  \<^verbatim>\<open>b.T @ z\<close> and the power \<^verbatim>\<open>ybar**2\<close> of a \<^verbatim>\<open>float64\<close> (library routines, parameters
  here: the power is the C library's \<^verbatim>\<open>pow\<close>, which need not be the correctly rounded
  product), and the archive behind each file name of the data directory: unreadable, or a
  list of members, each a list of text lines.
\<close>

datatype zip = NotZip | Zip "string list list"

record env =
  pinv_matmul :: "mat \<Rightarrow> vec \<Rightarrow> vec"
  dot :: "vec \<Rightarrow> vec \<Rightarrow> pyfloat"
  power2 :: "pyfloat \<Rightarrow> pyfloat"
  archive :: "string \<Rightarrow> zip"

text \<open>A decoded observation: education, income, bmi and the health rating \<open>y\<close>.\<close>

type_synonym observation = "int \<times> int \<times> pyfloat \<times> int"

text \<open>\<^verbatim>\<open>np.matrix([1, income, education, bmi]).T\<close>, a column of doubles.\<close>

definition design :: "int \<Rightarrow> int \<Rightarrow> pyfloat \<Rightarrow> vec" where
  "design income education bmi = [Fin 1, np_float income, np_float education, bmi]"

definition outer :: "vec \<Rightarrow> mat" where
  "outer x = map (\<lambda>xi. map (\<lambda>xj. fmul xi xj) x) x"

definition mat_add :: "mat \<Rightarrow> mat \<Rightarrow> mat" where
  "mat_add M N = map2 (map2 fadd) M N"

definition vec_add :: "vec \<Rightarrow> vec \<Rightarrow> vec" where
  "vec_add u v = map2 fadd u v"

definition scale :: "vec \<Rightarrow> int \<Rightarrow> vec" where
  "scale x y = map (\<lambda>xi. fmul xi (np_float y)) x"

text \<open>STEP 12: \<^verbatim>\<open>A += x * x.T; z += x * y; sumSqrs += y**2; n += 1\<close>.\<close>

definition accumulate :: "state \<Rightarrow> vec \<Rightarrow> int \<Rightarrow> state" where
  "accumulate st x y =
     st\<lparr>A := mat_add (A st) (outer x),
        z := vec_add (z st) (scale x y),
        sumSqrs := sumSqrs st + y ^ 2,
        n := n st + 1\<rparr>"

text \<open>STEP 13: every 10000 accepted observations \<open>b\<close> is assigned and printed.\<close>

definition progress :: "env \<Rightarrow> state \<Rightarrow> state" where
  "progress ev st =
     (if n st mod 10000 = 0 \<and> n st \<noteq> 0 then
        (let bv = pinv_matmul ev (A st) (z st)
         in st\<lparr>b := Some bv, out := out st @ [Coefficients bv]\<rparr>)
      else st)"

definition valid :: "observation \<Rightarrow> bool" where
  "valid ob =
     (case ob of (education, income, bmi, y) \<Rightarrow>
        education < 9 \<and> income < 9 \<and> flt (Fin 0) bmi \<and> flt bmi (Fin 99) \<and> y \<noteq> - 1)"

text \<open>
  STEP 10 to 13, the body of the inner \<^verbatim>\<open>try\<close>: a rejected observation raises
  ZeroDivisionError (\<^verbatim>\<open>1 / 0\<close>) before anything is updated.
\<close>

definition try_accumulate :: "env \<Rightarrow> state \<Rightarrow> observation \<Rightarrow> error + state" where
  "try_accumulate ev st ob =
     (case ob of (education, income, bmi, y) \<Rightarrow>
        (case (if valid ob then Inr (design income education bmi)
               else Inl ZeroDivisionError) of
           Inl e \<Rightarrow> Inl e
         | Inr x \<Rightarrow> Inr (progress ev (accumulate st x y))))"

text \<open>The inner \<^verbatim>\<open>except ZeroDivisionError: pass\<close>.\<close>

definition observe :: "env \<Rightarrow> state \<Rightarrow> observation \<Rightarrow> error + state" where
  "observe ev st ob =
     (case try_accumulate ev st ob of
        Inl e \<Rightarrow> if e = ZeroDivisionError then Inr st else Inl e
      | Inr st' \<Rightarrow> Inr st')"

section \<open>Records, files and the run\<close>

text \<open>
  STEP 6 to 9: the four decoder calls on a record, in the order of the source. They stand
  outside the inner \<^verbatim>\<open>try\<close>.
\<close>

definition decode_record :: "layout \<Rightarrow> int \<Rightarrow> string \<Rightarrow> error + observation" where
  "decode_record flds shortYear record =
     (let fEduc = education_pos flds;
          (sInc, eInc) = income_range flds;
          (sBMI, eBMI) = bmi_range flds;
          fGH = genhlth_pos flds
      in case (case py_index record (fEduc - 1) of
                 Inl e \<Rightarrow> Inl e | Inr c \<Rightarrow> getEducation c) of
           Inl e \<Rightarrow> Inl e
         | Inr education \<Rightarrow>
        (case getIncome (py_slice record (sInc - 1) eInc) of
           Inl e \<Rightarrow> Inl e
         | Inr income \<Rightarrow>
        (case convertBMI (py_slice record (sBMI - 1) eBMI) shortYear of
           Inl e \<Rightarrow> Inl e
         | Inr bmi \<Rightarrow>
        (case (case py_index record (fGH - 1) of
                 Inl e \<Rightarrow> Inl e | Inr c \<Rightarrow> getHlth c) of
           Inl e \<Rightarrow> Inl e
         | Inr y \<Rightarrow> Inr (education, income, bmi, y)))))"

definition process_record ::
  "env \<Rightarrow> layout \<Rightarrow> int \<Rightarrow> state \<Rightarrow> string \<Rightarrow> error + state" where
  "process_record ev flds shortYear st record =
     (case decode_record flds shortYear record of
        Inl e \<Rightarrow> Inl e
      | Inr ob \<Rightarrow> observe ev st ob)"

text \<open>
  \<^verbatim>\<open>for record in reader\<close>: an exception leaves the loop; the variables keep what the
  earlier records made of them.
\<close>

fun process_records ::
  "env \<Rightarrow> layout \<Rightarrow> int \<Rightarrow> state \<Rightarrow> string list \<Rightarrow> state \<times> error option" where
  "process_records ev flds shortYear st [] = (st, None)"
| "process_records ev flds shortYear st (record # rest) =
     (case process_record ev flds shortYear st record of
        Inl e \<Rightarrow> (st, Some e)
      | Inr st' \<Rightarrow> process_records ev flds shortYear st' rest)"

text \<open>The body of the outer \<^verbatim>\<open>try\<close> for one file name.\<close>

definition file_body :: "env \<Rightarrow> state \<Rightarrow> string \<Rightarrow> state \<times> error option" where
  "file_body ev st filename =
     (case int_of_str (py_slice filename 6 8) of
        Inl e \<Rightarrow> (st, Some e)
      | Inr shortYear \<Rightarrow>
          if shortYear < 11 then (st, Some ZeroDivisionError)
          else
            let st1 = st\<lparr>out := out st @ [FileName filename]\<rparr>
            in case fieldDict shortYear of
                 None \<Rightarrow> (st1, Some KeyError)
               | Some None \<Rightarrow> (st1, Some TypeError)
               | Some (Some flds) \<Rightarrow>
                   (case archive ev filename of
                      NotZip \<Rightarrow> (st1, Some BadZipFile)
                    | Zip zipFileList \<Rightarrow>
                        if length zipFileList = 1
                        then process_records ev flds shortYear st1 (hd zipFileList)
                        else (st1, Some AssertionError)))"

text \<open>
  The outer \<^verbatim>\<open>except (ValueError, ZeroDivisionError): pass\<close>: these two go on with the
  next file, any other exception ends the script.
\<close>

definition process_file :: "env \<Rightarrow> state \<Rightarrow> string \<Rightarrow> error + state" where
  "process_file ev st filename =
     (case file_body ev st filename of
        (st', None) \<Rightarrow> Inr st'
      | (st', Some e) \<Rightarrow>
          if e = ValueError \<or> e = ZeroDivisionError then Inr st' else Inl e)"

fun process_files :: "env \<Rightarrow> state \<Rightarrow> string list \<Rightarrow> error + state" where
  "process_files ev st [] = Inr st"
| "process_files ev st (filename # fileList) =
     (case process_file ev st filename of
        Inl e \<Rightarrow> Inl e
      | Inr st' \<Rightarrow> process_files ev st' fileList)"

text \<open>
  STEP 14 to 16. \<^verbatim>\<open>z[0, 0] / n\<close> and the division by \<^verbatim>\<open>sumSqrs - n * ybar**2\<close> are
  numpy divisions; \<^verbatim>\<open>/ (n - q)\<close> divides Python numbers and raises on zero;
  \<^verbatim>\<open>ybar**2\<close> is numpy's power, \<open>power2\<close> of the environment. \<open>b\<close> is read as the loop
  left it.
\<close>

definition finalize :: "env \<Rightarrow> state \<Rightarrow> error + state" where
  "finalize ev st =
     (let ybar = np_div (z st ! 0) (np_float (n st))
      in case b st of
           None \<Rightarrow> Inl NameError
         | Some bv \<Rightarrow>
        (case float_of_int (sumSqrs st) of
           Inl e \<Rightarrow> Inl e
         | Inr s \<Rightarrow>
        (let resid = fsub s (dot ev bv (z st))
         in case float_div_int resid (n st - q) of
              Inl e \<Rightarrow> Inl e
            | Inr varEst \<Rightarrow>
           (case int_truediv (n st - 1) (n st - q) of
              Inl e \<Rightarrow> Inl e
            | Inr ratio \<Rightarrow>
                let total = fsub (np_float (sumSqrs st))
                              (fmul (np_float (n st)) (power2 ev ybar));
                    rAdj = fsub (Fin 1) (fmul ratio (np_div resid total))
                in Inr (st\<lparr>out := out st @
                      [Header [''n'', ''b0'', ''inc'', ''edu'', ''bmi'', ''r^2_adj''],
                       Summary (n st) (map round3 bv) (round3 rAdj)]\<rparr>)))))"

definition run :: "env \<Rightarrow> string list \<Rightarrow> error + line list" where
  "run ev fileList =
     (case process_files ev init fileList of
        Inl e \<Rightarrow> Inl e
      | Inr st \<Rightarrow>
          (case finalize ev st of Inl e \<Rightarrow> Inl e | Inr st' \<Rightarrow> Inr (out st')))"


section \<open>Auxiliary definitions for the statements\<close>

text \<open>The part of the state the accumulator consists of.\<close>

definition accumulator :: "state \<Rightarrow> mat \<times> vec \<times> int \<times> int" where
  "accumulator st = (A st, z st, sumSqrs st, n st)"

text \<open>
  Example data: an environment whose library routines are simple stand-ins (the identity
  for the pseudo-inverse solution, a dot product summed from the left, the rounded product
  for the power), and a record of the 2011 layout (health rating in column 73, education in 122, income in 124 to 125,
  BMI in 1533 to 1536) with blanks everywhere else.
\<close>

definition example_env :: "(string \<Rightarrow> zip) \<Rightarrow> env" where
  "example_env fs =
     \<lparr>pinv_matmul = (\<lambda>M v. v),
      dot = (\<lambda>u v. foldl fadd (Fin 0) (map2 fmul u v)),
      power2 = (\<lambda>x. fmul x x),
      archive = fs\<rparr>"

definition example_record :: "string \<Rightarrow> string \<Rightarrow> string \<Rightarrow> string \<Rightarrow> string" where
  "example_record hlth edu inc bmi =
     replicate 72 (CHR '' '') @ hlth @ replicate 48 (CHR '' '') @ edu @ '' '' @ inc
     @ replicate 1407 (CHR '' '') @ bmi @ [CHR 0x0A]"

text \<open>The layout of the year code 11.\<close>

definition layout11 :: layout where
  "layout11 = \<lparr>genhlth_pos = 73, bmi_range = (1533, 1536),
                income_range = (124, 125), education_pos = 122\<rparr>"

text \<open>The update of STEP 12 for a decoded observation, and its sum over a list from the zero state.\<close>

definition accumulate_ob :: "state \<Rightarrow> observation \<Rightarrow> state" where
  "accumulate_ob st ob =
     (case ob of (education, income, bmi, y) \<Rightarrow> accumulate st (design income education bmi) y)"

definition totals :: "observation list \<Rightarrow> state" where
  "totals obs = foldl accumulate_ob init obs"

text \<open>STEP 10 to 13 as a function: \<open>observe\<close> never raises.\<close>

definition step :: "env \<Rightarrow> state \<Rightarrow> observation \<Rightarrow> state" where
  "step ev st ob = (if valid ob then progress ev (accumulate_ob st ob) else st)"

text \<open>
  The observations a run decodes, in order: in each selected file with an archive of one
  member, the records up to the first one that does not decode.
\<close>

fun decoded :: "layout \<Rightarrow> int \<Rightarrow> string list \<Rightarrow> observation list" where
  "decoded flds shortYear [] = []"
| "decoded flds shortYear (record # rest) =
     (case decode_record flds shortYear record of
        Inl e \<Rightarrow> []
      | Inr ob \<Rightarrow> ob # decoded flds shortYear rest)"

definition file_observations :: "env \<Rightarrow> string \<Rightarrow> observation list" where
  "file_observations ev filename =
     (case py_int (py_slice filename 6 8) of
        None \<Rightarrow> []
      | Some shortYear \<Rightarrow>
          if shortYear < 11 then []
          else case fieldDict shortYear of
                 Some (Some flds) \<Rightarrow>
                   (case archive ev filename of
                      Zip [records] \<Rightarrow> decoded flds shortYear records
                    | _ \<Rightarrow> [])
               | _ \<Rightarrow> [])"

definition run_observations :: "env \<Rightarrow> string list \<Rightarrow> observation list" where
  "run_observations ev fileList = concat (map (file_observations ev) fileList)"

text \<open>The state without what was printed.\<close>

definition core :: "state \<Rightarrow> mat \<times> vec \<times> int \<times> int \<times> vec option" where
  "core st = (A st, z st, sumSqrs st, n st, b st)"


text \<open>
  The estimate of the most recent progress report, in the words of the specification: the
  pseudo-inverse solution for the sums over the first \<open>10000 * \<lfloor>n / 10000\<rfloor>\<close> accepted
  observations; none before the first 10000.
\<close>

definition last_report :: "env \<Rightarrow> observation list \<Rightarrow> vec option" where
  "last_report ev acc =
     (if length acc < 10000 then None
      else let first = take (10000 * (length acc div 10000)) acc
           in Some (pinv_matmul ev (A (totals first)) (z (totals first))))"





text \<open>
  For the order of the observations: education, income and health rating of at most two
  digits, as the one and two character fields of a record give them.
\<close>

definition within_range :: "observation \<Rightarrow> bool" where
  "within_range ob =
     (case ob of (education, income, bmi, y) \<Rightarrow>
        \<bar>education\<bar> \<le> 99 \<and> \<bar>income\<bar> \<le> 99 \<and> \<bar>y\<bar> \<le> 99)"

text \<open>
  The entries of \<open>A\<close> built from the predictors 1, income and education alone: rows and
  columns 0 to 2. The last row and column are the ones of \<open>bmi\<close>.
\<close>

definition int_block :: "mat \<Rightarrow> mat" where
  "int_block M = map (take 3) (take 3 M)"

text \<open>The integer predictors and the response of an observation, and their exact sums of products.\<close>

definition one_of :: "observation \<Rightarrow> int" where
  "one_of ob = 1"

definition income_of :: "observation \<Rightarrow> int" where
  "income_of ob = (case ob of (education, income, bmi, y) \<Rightarrow> income)"

definition education_of :: "observation \<Rightarrow> int" where
  "education_of ob = (case ob of (education, income, bmi, y) \<Rightarrow> education)"

definition health_of :: "observation \<Rightarrow> int" where
  "health_of ob = (case ob of (education, income, bmi, y) \<Rightarrow> y)"

definition int_features :: "(observation \<Rightarrow> int) list" where
  "int_features = [one_of, income_of, education_of]"

definition isum :: "(observation \<Rightarrow> int) \<Rightarrow> (observation \<Rightarrow> int) \<Rightarrow> observation list \<Rightarrow> int" where
  "isum g h obs = sum_list (map (\<lambda>ob. g ob * h ob) obs)"

text \<open>An integer as a double without rounding, and the block and vector of the exact sums.\<close>

definition exact :: "int \<Rightarrow> pyfloat" where
  "exact k = Fin (of_int k)"

definition exact_block :: "observation list \<Rightarrow> mat" where
  "exact_block obs = map (\<lambda>g. map (\<lambda>h. exact (isum g h obs)) int_features) int_features"

definition exact_z :: "observation list \<Rightarrow> vec" where
  "exact_z obs = map (\<lambda>g. exact (isum g health_of obs)) int_features"


text \<open>
  Three accepted observations (education, income, BMI, health rating) with the BMI fields
  \<^verbatim>\<open>2480\<close>, \<^verbatim>\<open>2540\<close> and \<^verbatim>\<open>2760\<close> as the decoder returns them.
\<close>

definition order_example :: "observation list" where
  "order_example =
     [(5, 6, Fin (6980579422424269 / 281474976710656), 1),
      (6, 7, Fin (7149464408450663 / 281474976710656), 2),
      (2, 4, Fin (3884354678607053 / 140737488355328), 1)]"

section \<open>Properties of the parsers\<close>

lemma is_digit_to_ascii: "is_digit c \<Longrightarrow> to_ascii c = c"
  by (simp add: is_digit_def to_ascii_def Let_def)

lemma is_digit_to_ascii_iff: "is_digit (to_ascii c) = is_digit c"
  by (auto simp add: is_digit_def to_ascii_def Let_def)

lemma is_digit_not_space: "is_digit c \<Longrightarrow> \<not> ascii_space c"
  by (auto simp add: is_digit_def ascii_space_def Let_def)

lemma is_digit_not_sign:
  "is_digit c \<Longrightarrow> c \<noteq> CHR ''-'' \<and> c \<noteq> CHR ''+'' \<and> c \<noteq> CHR ''_''"
  by (auto simp add: is_digit_def Let_def)

lemma digit_val_range: "is_digit c \<Longrightarrow> 0 \<le> digit_val c \<and> digit_val c \<le> 9"
proof -
  assume "is_digit c"
  then have "48 \<le> (of_char c :: nat) \<and> (of_char c :: nat) \<le> 57"
    by (simp add: is_digit_def Let_def)
  then have "48 \<le> int (of_char c) \<and> int (of_char c) \<le> 57"
    by linarith
  then show ?thesis
    by (simp add: digit_val_def of_nat_of_char)
qed

text \<open>On one character \<^verbatim>\<open>int\<close> accepts exactly the ten digits.\<close>

lemma py_int_single: "py_int [c] = (if is_digit c then Some (digit_val c) else None)"
proof (cases "is_digit c")
  case True
  then show ?thesis
    using is_digit_to_ascii[OF True] is_digit_not_space[OF True] is_digit_not_sign[OF True]
    by (simp add: py_int_def strip_sign_def digit_or_underscore_def digits_value_def
        max_str_digits_def)
next
  case False
  then have nd: "\<not> is_digit (to_ascii c)"
    by (simp add: is_digit_to_ascii_iff)
  show ?thesis
    using False nd
    by (auto simp add: py_int_def strip_sign_def digit_or_underscore_def Let_def
        split: if_splits)
qed

subsection \<open>Rounding to a double\<close>

lemma pow2_powi: "pow2 k = 2 powi k"
  by (simp add: pow2_def power_int_def power_inverse inverse_eq_divide power_one_over)

lemma pow2_pos: "0 < pow2 k"
  by (simp add: pow2_powi zero_less_power_int)


lemma pow2_mono: "i \<le> j \<Longrightarrow> pow2 i \<le> pow2 j"
  by (simp add: pow2_powi power_int_increasing)

lemma pow2_add: "pow2 (i + j) = pow2 i * pow2 j"
  by (simp add: pow2_powi power_int_add)

lemma pow2_diff: "pow2 (i - j) = pow2 i / pow2 j"
  by (simp add: pow2_powi power_int_diff)

lemma pow2_nat: "0 \<le> k \<Longrightarrow> pow2 k = 2 ^ nat k"
  by (simp add: pow2_def)

lemma ilog2_spec:
  assumes "0 < a"
  shows "pow2 (ilog2 a) \<le> a \<and> a < pow2 (ilog2 a + 1)"
proof -
  obtain p d where pd: "quotient_of a = (p, d)"
    by (cases "quotient_of a")
  have d: "0 < d" using pd by (rule quotient_of_denom_pos)
  have a: "a = of_int p / of_int d" using pd by (rule quotient_of_div)
  have p: "0 < p"
    using assms a d by (simp add: zero_less_divide_iff)
  define k where "k = bitlen p - bitlen d"
  have bp: "2 ^ nat (bitlen p - 1) \<le> p \<and> p < 2 ^ nat (bitlen p)"
    using p by (rule bitlen_bounds)
  have bd: "2 ^ nat (bitlen d - 1) \<le> d \<and> d < 2 ^ nat (bitlen d)"
    using d by (rule bitlen_bounds)
  have lp: "1 \<le> bitlen p" using p bitlen_eq_zero_iff [of p] bitlen_nonneg [of p] by linarith
  have ld: "1 \<le> bitlen d" using d bitlen_eq_zero_iff [of d] bitlen_nonneg [of d] by linarith
  have p1: "pow2 (bitlen p - 1) \<le> of_int p"
  proof -
    have "(of_int (2 ^ nat (bitlen p - 1)) :: rat) \<le> of_int p"
      using bp by (simp only: of_int_le_iff)
    then show ?thesis using lp by (simp add: pow2_nat)
  qed
  have p2: "of_int p < pow2 (bitlen p)"
  proof -
    have "(of_int p :: rat) < of_int (2 ^ nat (bitlen p))"
      using bp by (simp only: of_int_less_iff)
    then show ?thesis using lp by (simp add: pow2_nat)
  qed
  have d1: "pow2 (bitlen d - 1) \<le> of_int d"
  proof -
    have "(of_int (2 ^ nat (bitlen d - 1)) :: rat) \<le> of_int d"
      using bd by (simp only: of_int_le_iff)
    then show ?thesis using ld by (simp add: pow2_nat)
  qed
  have d2: "of_int d < pow2 (bitlen d)"
  proof -
    have "(of_int d :: rat) < of_int (2 ^ nat (bitlen d))"
      using bd by (simp only: of_int_less_iff)
    then show ?thesis using ld by (simp add: pow2_nat)
  qed
  have dpos: "(0::rat) < of_int d" using d by simp
  have upper: "a < pow2 (k + 1)"
  proof -
    have "of_int p < pow2 (bitlen p)" by (rule p2)
    also have "pow2 (bitlen p) = pow2 (k + 1) * pow2 (bitlen d - 1)"
      by (simp add: k_def pow2_add [symmetric])
    also have "\<dots> \<le> pow2 (k + 1) * of_int d"
      using d1 pow2_pos [of "k + 1"] by (simp add: mult_left_mono)
    finally show ?thesis using dpos by (simp add: a pos_divide_less_eq)
  qed
  have lower: "pow2 (k - 1) < a"
  proof -
    have "pow2 (k - 1) * of_int d < pow2 (k - 1) * pow2 (bitlen d)"
      using d2 pow2_pos [of "k - 1"] by (simp add: mult_strict_left_mono)
    also have "\<dots> = pow2 (bitlen p - 1)"
      by (simp add: k_def pow2_add [symmetric])
    also have "\<dots> \<le> of_int p" by (rule p1)
    finally show ?thesis using dpos by (simp add: a pos_less_divide_eq)
  qed
  have il: "ilog2 a = (if pow2 k \<le> a then k else k - 1)"
    by (simp add: ilog2_def pd k_def Let_def)
  show ?thesis
  proof (cases "pow2 k \<le> a")
    case True
    then show ?thesis using upper il by simp
  next
    case False
    then show ?thesis using lower il by simp
  qed
qed

lemma ilog2_eq:
  assumes "0 < a" and "pow2 e \<le> a" and "a < pow2 (e + 1)"
  shows "ilog2 a = e"
proof -
  have s: "pow2 (ilog2 a) \<le> a \<and> a < pow2 (ilog2 a + 1)"
    using assms(1) by (rule ilog2_spec)
  have "\<not> ilog2 a < e"
  proof
    assume "ilog2 a < e"
    then have "pow2 (ilog2 a + 1) \<le> pow2 e" by (simp add: pow2_mono)
    with s assms(2) show False by simp
  qed
  moreover have "\<not> e < ilog2 a"
  proof
    assume "e < ilog2 a"
    then have "pow2 (e + 1) \<le> pow2 (ilog2 a)" by (simp add: pow2_mono)
    with s assms(3) show False by simp
  qed
  ultimately show ?thesis by simp
qed

lemma round_half_even_int: "round_half_even (of_int m) = m"
  by (simp add: round_half_even_def)

lemma round_half_even_near:
  assumes "of_int m - 1 / 2 < r" and "r < of_int m + 1 / 2"
  shows "round_half_even r = m"
proof (cases "of_int m \<le> r")
  case True
  then have f: "\<lfloor>r\<rfloor> = m" using assms by (simp add: floor_unique)
  show ?thesis using assms by (simp add: round_half_even_def f)
next
  case False
  then have f: "\<lfloor>r\<rfloor> = m - 1" using assms by (simp add: floor_unique)
  show ?thesis using assms False by (simp add: round_half_even_def f)
qed

lemma round_half_even_tie_up:
  assumes "r = of_int m - 1 / 2" and "even m"
  shows "round_half_even r = m"
proof -
  have f: "\<lfloor>r\<rfloor> = m - 1" using assms by (simp add: floor_unique)
  have d: "r - of_int (m - 1) = 1 / 2" using assms by simp
  show ?thesis
    unfolding round_half_even_def Let_def f d using assms(2) by simp
qed

lemma round_half_even_tie_down:
  assumes "r = of_int m + 1 / 2" and "even m"
  shows "round_half_even r = m"
proof -
  have f: "\<lfloor>r\<rfloor> = m" using assms by (simp add: floor_unique)
  have d: "r - of_int m = 1 / 2" using assms by simp
  show ?thesis
    unfolding round_half_even_def Let_def f d using assms(2) by simp
qed

lemma round_double_pos:
  assumes "0 < a" and "pow2 e \<le> a" and "a < pow2 (e + 1)"
    and "round_half_even (a / pow2 (max e (- 1022) - 52)) = m"
    and "of_int m * pow2 (max e (- 1022) - 52) < pow2 1024"
  shows "round_double a = Fin (of_int m * pow2 (max e (- 1022) - 52))"
proof -
  have "ilog2 a = e" using assms(1-3) by (rule ilog2_eq)
  then show ?thesis
    using assms by (simp add: round_double_def Let_def)
qed

lemma round_double_neg: "round_double (- a) = fneg (round_double a)"
  by (cases "a = 0"; cases "0 < a") (auto simp add: round_double_def Let_def)


lemma round_double_exact:
  assumes "0 < m" and "m < 2 ^ 53" and "- 1074 \<le> k" and "of_int m * pow2 k < pow2 1024"
  shows "round_double (of_int m * pow2 k) = Fin (of_int m * pow2 k)"
proof -
  define a where "a = of_int m * pow2 k"
  have apos: "0 < a" using assms(1) pow2_pos [of k] by (simp add: a_def)
  define e where "e = max (ilog2 a) (- 1022)"
  have sp: "pow2 (ilog2 a) \<le> a \<and> a < pow2 (ilog2 a + 1)"
    using apos by (rule ilog2_spec)
  have "(of_int m :: rat) < of_int (2 ^ 53)"
    using assms(2) by (simp only: of_int_less_iff)
  then have "(of_int m :: rat) < pow2 53" by (simp add: pow2_def)
  then have "a < pow2 53 * pow2 k"
    using pow2_pos [of k] by (simp add: a_def)
  then have "a < pow2 (k + 53)" by (simp add: pow2_add mult.commute)
  with sp have "pow2 (ilog2 a) < pow2 (k + 53)" by simp
  then have "ilog2 a < k + 53"
    using pow2_mono [of "k + 53" "ilog2 a"] by (cases "ilog2 a < k + 53") simp_all
  then have le: "e - 52 \<le> k" using assms(3) by (simp add: e_def)
  define j where "j = nat (k - (e - 52))"
  have "pow2 k = pow2 (int j) * pow2 (e - 52)"
    using le by (simp add: j_def pow2_add [symmetric])
  then have q: "a / pow2 (e - 52) = of_int (m * 2 ^ j)"
    using pow2_pos [of "e - 52"] by (simp add: a_def pow2_nat)
  have r: "round_half_even (a / pow2 (e - 52)) = m * 2 ^ j"
    unfolding q by (rule round_half_even_int)
  have v: "of_int (m * 2 ^ j) * pow2 (e - 52) = a"
    using q pow2_pos [of "e - 52"] by (simp add: field_simps)
  have "round_double a = Fin a"
    using apos assms(4) r v
    by (simp add: round_double_def Let_def e_def [symmetric] a_def [symmetric])
  then show ?thesis by (simp add: a_def)
qed

lemma round_double_int:
  assumes "\<bar>i\<bar> \<le> 2 ^ 53"
  shows "round_double (of_int i) = Fin (of_int i)"
proof -
  have pos: "round_double (of_int j) = Fin (of_int j)" if "0 < j" "j \<le> 2 ^ 53" for j :: int
  proof (cases "j = 2 ^ 53")
    case True
    have "round_double (of_int 1 * pow2 53) = Fin (of_int 1 * pow2 53)"
      by (rule round_double_exact) (simp_all add: pow2_def)
    then show ?thesis using True by (simp add: pow2_def)
  next
    case False
    then have jl: "j < 2 ^ 53" using that by simp
    then have "(of_int j :: rat) < of_int (2 ^ 53)"
      by (simp only: of_int_less_iff)
    then have "(of_int j :: rat) < 2 ^ 53" by simp
    moreover have "(2 :: rat) ^ 53 \<le> 2 ^ 1024" by (rule power_increasing) simp_all
    ultimately have b: "of_int j * pow2 0 < pow2 1024" by (simp add: pow2_def)
    have "round_double (of_int j * pow2 0) = Fin (of_int j * pow2 0)"
      using that(1) jl _ b by (rule round_double_exact) simp
    then show ?thesis by (simp add: pow2_def)
  qed
  show ?thesis
  proof (cases "i = 0")
    case True
    then show ?thesis by (simp add: round_double_def)
  next
    case False
    show ?thesis
    proof (cases "0 < i")
      case True
      then show ?thesis using pos [of i] assms by simp
    next
      case n: False
      then have "round_double (of_int (- i)) = Fin (of_int (- i))"
        using pos [of "- i"] assms False by simp
      then have "fneg (round_double (of_int i)) = Fin (- of_int i)"
        by (simp add: round_double_neg)
      then show ?thesis by (cases "round_double (of_int i)") simp_all
    qed
  qed
qed

lemma np_float_small: "\<bar>i\<bar> \<le> 2 ^ 53 \<Longrightarrow> np_float i = Fin (of_int i)"
  by (simp add: np_float_def round_double_int)

section \<open>The health-rating decoder\<close>

text \<open>
  What \<^verbatim>\<open>getHlth\<close> does on every string of one character: the blank gives \<open>-1\<close>, a
  character that is no digit raises ValueError, the digits 1 to 6 are returned, 7 to 9
  give \<open>-1\<close>, and the digit 0 passes the test \<^verbatim>\<open>genhlth > 6\<close> unchanged and fails the
  assertion.
\<close>

lemma getHlth_single:
  "getHlth [c] =
     (if c = CHR '' '' then Inr (- 1)
      else if \<not> is_digit c then Inl ValueError
      else if digit_val c = 0 then Inl AssertionError
      else if 6 < digit_val c then Inr (- 1)
      else Inr (digit_val c))"
proof -
  have r: "is_digit c \<Longrightarrow> 0 \<le> digit_val c \<and> digit_val c \<le> 9"
    by (rule digit_val_range)
  have m: "\<And>g::int. g \<in> {- 1, 1, 2, 3, 4, 5, 6} \<longleftrightarrow> g = - 1 \<or> (1 \<le> g \<and> g \<le> 6)"
    by auto
  show ?thesis
    using r
    by (auto simp add: getHlth_def hlth_value_def int_of_str_def py_int_single m)
qed

lemma getHlth_examples:
  "getHlth ''3'' = Inr 3 \<and> getHlth ''9'' = Inr (- 1) \<and> getHlth '' '' = Inr (- 1)"
  by code_simp

text \<open>
  C4: for every single-character input the health-rating decoder returns \<open>-1\<close> when the
  string is blank or parses to an integer outside 1 to 6, and the parsed integer
  otherwise, and its assertion that the result is one of \<open>-1, 1, 2, 3, 4, 5, 6\<close> never
  fails. The code fails it at the input \<^verbatim>\<open>"0"\<close>: 0 is outside 1 to 6, the decoder tests
  only \<^verbatim>\<open>genhlth > 6\<close>, leaves 0 as it is, and its own assertion raises AssertionError.
\<close>

theorem getHlth_zero_fails_assertion: "getHlth ''0'' = Inl AssertionError"
  by code_simp

section \<open>The education and income decoders\<close>

text \<open>
  C10, as stated, has the education decoder return the sentinel 9 on every entirely
  blank string. The decoder compares with the one-character string \<^verbatim>\<open>" "\<close> only: two
  blanks are passed to \<^verbatim>\<open>int\<close>, which raises ValueError.
\<close>

theorem getEducation_two_blanks_raises: "getEducation ''  '' = Inl ValueError"
  by code_simp

text \<open>
  C10, amended: the education decoder returns the sentinel 9 on the string of one blank,
  the income decoder on the string of two blanks; on every other string each returns the
  string parsed as an integer (which may itself be 9) and raises ValueError when
  \<^verbatim>\<open>int\<close> rejects it; income \<^verbatim>\<open>"07"\<close> is 7.
\<close>

theorem education_income_decoders:
  "getEducation s =
     (if s = '' '' then Inr 9
      else case py_int s of None \<Rightarrow> Inl ValueError | Some i \<Rightarrow> Inr i)
   \<and> getIncome s =
     (if s = ''  '' then Inr 9
      else case py_int s of None \<Rightarrow> Inl ValueError | Some i \<Rightarrow> Inr i)
   \<and> getIncome ''07'' = Inr 7"
proof -
  have "getIncome ''07'' = Inr 7"
    by code_simp
  then show ?thesis
    by (simp add: getEducation_def getIncome_def int_of_str_def)
qed

theorem education_income_decoders_witness:
  "getEducation ''7'' = Inr 7 \<and> getIncome ''x1'' = Inl ValueError
   \<and> getEducation '' '' = Inr 9 \<and> getIncome ''  '' = Inr 9"
proof -
  have p: "py_int ''7'' = Some 7" "py_int ''x1'' = None"
    by code_simp+
  show ?thesis
    using education_income_decoders [of "''7''"] education_income_decoders [of "''x1''"]
      education_income_decoders [of "'' ''"] education_income_decoders [of "''  ''"] p
    by simp
qed


section \<open>The BMI decoder\<close>

text \<open>The literals \<^verbatim>\<open>0.1\<close> and \<^verbatim>\<open>0.01\<close> as doubles, and the two products of the examples.\<close>

lemma double_tenth: "round_double (1 / 10) = Fin (3602879701896397 / 36028797018963968)"
proof -
  have "round_double (1 / 10) = Fin (of_int 7205759403792794 * pow2 (max (- 4) (- 1022) - 52))"
    by (rule round_double_pos) (simp_all add: pow2_def round_half_even_near)
  then show ?thesis by (simp add: pow2_def)
qed

lemma double_hundredth:
  "round_double (1 / 100) = Fin (5764607523034235 / 576460752303423488)"
proof -
  have "round_double (1 / 100) = Fin (of_int 5764607523034235 * pow2 (max (- 7) (- 1022) - 52))"
    by (rule round_double_pos) (simp_all add: pow2_def round_half_even_near)
  then show ?thesis by (simp add: pow2_def)
qed

lemma bmi_1850: "fmul (round_double (1 / 100)) (Fin 1850) = Fin (37 / 2)"
proof -
  have "round_double (5764607523034235 / 576460752303423488 * 1850)
      = Fin (of_int 5207287069147136 * pow2 (max 4 (- 1022) - 52))"
    by (rule round_double_pos) (simp_all add: pow2_def round_half_even_near)
  then show ?thesis by (simp add: double_hundredth pow2_def)
qed

lemma bmi_0185: "fmul (round_double (1 / 10)) (Fin 185) = Fin (37 / 2)"
proof -
  have "round_double (3602879701896397 / 36028797018963968 * 185)
      = Fin (of_int 5207287069147136 * pow2 (max 4 (- 1022) - 52))"
    by (rule round_double_pos) (simp_all add: pow2_def round_half_even_near)
  then show ?thesis by (simp add: double_tenth pow2_def)
qed

lemma py_float_1850: "py_float ''1850'' = Some (Fin 1850)"
proof -
  have "float_literal ''1850'' = Some (Inr 1850)" by code_simp
  moreover have "round_double (of_int 1850) = Fin (of_int 1850)"
    by (rule round_double_int) simp
  ultimately show ?thesis by (simp add: py_float_def)
qed

lemma py_float_0185: "py_float ''0185'' = Some (Fin 185)"
proof -
  have "float_literal ''0185'' = Some (Inr 185)" by code_simp
  moreover have "round_double (of_int 185) = Fin (of_int 185)"
    by (rule round_double_int) simp
  ultimately show ?thesis by (simp add: py_float_def)
qed

lemma py_float_blank: "py_float ''  '' = None"
proof -
  have "float_literal ''  '' = None" by code_simp
  then show ?thesis by (simp add: py_float_def)
qed

lemma convertBMI_1850: "convertBMI ''1850'' 11 = Inr (Fin (37 / 2))"
  by (simp add: convertBMI_def scaled_def float_of_str_def py_float_1850 bmi_1850)

text \<open>
  C7, as stated, gives the 2011 and later generation an all-blank sentinel. The decoder
  compares with the string of exactly four blanks: an all-blank string of another length
  (the slice of a short line) is passed to \<^verbatim>\<open>float\<close>, which raises ValueError.
\<close>

theorem convertBMI_two_blanks_raises: "convertBMI ''  '' 11 = Inl ValueError"
  by (simp add: convertBMI_def scaled_def float_of_str_def py_float_blank)

text \<open>
  C7, amended: for every string and year code the BMI decoder returns 0 for a negative
  year code and on the sentinel of the generation (\<^verbatim>\<open>"999"\<close> for code 0, \<^verbatim>\<open>"999999"\<close> for
  code 1, \<^verbatim>\<open>"9999"\<close> for codes 2 to 10, the string of four blanks for codes above 10);
  otherwise it raises ValueError when \<^verbatim>\<open>float\<close> rejects the string and else returns the
  parsed number times the scale factor of the generation (0.1, 0.0001, 0.01, 0.01), as a
  floating-point product. \<^verbatim>\<open>"1850"\<close> under code 11 and \<^verbatim>\<open>"0185"\<close> under code 0 both give
  exactly 18.5.
\<close>

theorem convertBMI_rule:
  "convertBMI s yr =
     (if yr < 0 then Inr (Fin 0)
      else if (yr = 0 \<and> s = ''999'') \<or> (yr = 1 \<and> s = ''999999'')
              \<or> (2 \<le> yr \<and> yr \<le> 10 \<and> s = ''9999'') \<or> (10 < yr \<and> s = ''    '')
      then Inr (Fin 0)
      else case py_float s of
             None \<Rightarrow> Inl ValueError
           | Some x \<Rightarrow>
               Inr (fmul (round_double (if yr = 0 then 1 / 10
                                         else if yr = 1 then 1 / 10000 else 1 / 100)) x))
   \<and> convertBMI ''1850'' 11 = Inr (Fin (37 / 2))
   \<and> convertBMI ''0185'' 0 = Inr (Fin (37 / 2))"
proof -
  have a: "convertBMI ''1850'' 11 = Inr (Fin (37 / 2))"
    by (simp add: convertBMI_def scaled_def float_of_str_def py_float_1850 bmi_1850)
  have b: "convertBMI ''0185'' 0 = Inr (Fin (37 / 2))"
    by (simp add: convertBMI_def scaled_def float_of_str_def py_float_0185 bmi_0185)
  have "convertBMI s yr =
     (if yr < 0 then Inr (Fin 0)
      else if (yr = 0 \<and> s = ''999'') \<or> (yr = 1 \<and> s = ''999999'')
              \<or> (2 \<le> yr \<and> yr \<le> 10 \<and> s = ''9999'') \<or> (10 < yr \<and> s = ''    '')
      then Inr (Fin 0)
      else case py_float s of
             None \<Rightarrow> Inl ValueError
           | Some x \<Rightarrow>
               Inr (fmul (round_double (if yr = 0 then 1 / 10
                                         else if yr = 1 then 1 / 10000 else 1 / 100)) x))"
    by (cases "py_float s") (auto simp add: convertBMI_def scaled_def float_of_str_def)
  with a b show ?thesis by simp
qed


theorem convertBMI_rule_witness:
  "convertBMI ''    '' 11 = Inr (Fin 0) \<and> convertBMI ''999'' 0 = Inr (Fin 0)
   \<and> convertBMI ''1850'' (- 1) = Inr (Fin 0)
   \<and> convertBMI ''1850'' 14 = Inr (Fin (37 / 2))"
  using convertBMI_rule [of "''    ''" 11] convertBMI_rule [of "''999''" 0]
    convertBMI_rule [of "''1850''" "- 1"] convertBMI_rule [of "''1850''" 14]
  by (simp add: py_float_1850 bmi_1850)

section \<open>The validity filter\<close>

lemma accumulator_progress: "accumulator (progress ev st) = accumulator st"
  by (simp add: accumulator_def progress_def Let_def)

lemma n_accumulate: "n (accumulate st x y) = n st + 1"
  by (simp add: accumulate_def)

lemma observe_valid:
  "valid (education, income, bmi, y) \<Longrightarrow>
   observe ev st (education, income, bmi, y)
     = Inr (progress ev (accumulate st (design income education bmi) y))"
  by (simp add: observe_def try_accumulate_def)

lemma observe_invalid: "\<not> valid ob \<Longrightarrow> observe ev st ob = Inr st"
  by (cases ob) (simp add: observe_def try_accumulate_def)

text \<open>
  C3: a decoded observation is accumulated if and only if \<open>education < 9\<close>,
  \<open>income < 9\<close>, \<open>0 < bmi < 99\<close> and \<open>health \<noteq> -1\<close>. When it is, \<open>A\<close>, \<open>z\<close>, \<open>sumSqrs\<close> and
  \<open>n\<close> become what the update of STEP 12 makes of them (\<open>n\<close> grows by one); when it is
  rejected the state is unchanged. The step always returns.
\<close>

theorem validity_filter:
  "\<exists>st'. observe ev st (education, income, bmi, y) = Inr st'
     \<and> (if education < 9 \<and> income < 9 \<and> flt (Fin 0) bmi \<and> flt bmi (Fin 99) \<and> y \<noteq> - 1
        then accumulator st' = accumulator (accumulate st (design income education bmi) y)
        else st' = st)
     \<and> (n st' = n st + 1
          \<longleftrightarrow> education < 9 \<and> income < 9 \<and> flt (Fin 0) bmi \<and> flt bmi (Fin 99) \<and> y \<noteq> - 1)"
proof (cases "valid (education, income, bmi, y)")
  case True
  then have "observe ev st (education, income, bmi, y)
      = Inr (progress ev (accumulate st (design income education bmi) y))"
    by (rule observe_valid)
  moreover have "n (progress ev (accumulate st (design income education bmi) y)) = n st + 1"
    using accumulator_progress [of ev "accumulate st (design income education bmi) y"]
    by (simp add: accumulator_def n_accumulate)
  ultimately show ?thesis
    using True by (simp add: valid_def accumulator_progress)
next
  case False
  then have "observe ev st (education, income, bmi, y) = Inr st"
    by (rule observe_invalid)
  then show ?thesis
    using False by (auto simp add: valid_def)
qed

theorem validity_filter_witness:
  "(\<exists>st'. observe (example_env (\<lambda>f. NotZip)) init (4, 5, Fin (37 / 2), 3) = Inr st'
      \<and> n st' = 1 \<and> sumSqrs st' = 9)
   \<and> observe (example_env (\<lambda>f. NotZip)) init (9, 5, Fin (37 / 2), 3) = Inr init
   \<and> observe (example_env (\<lambda>f. NotZip)) init (4, 9, Fin (37 / 2), 3) = Inr init
   \<and> observe (example_env (\<lambda>f. NotZip)) init (4, 5, Fin 0, 3) = Inr init
   \<and> observe (example_env (\<lambda>f. NotZip)) init (4, 5, Fin 99, 3) = Inr init
   \<and> observe (example_env (\<lambda>f. NotZip)) init (4, 5, Fin (37 / 2), - 1) = Inr init"
  using validity_filter [of "example_env (\<lambda>f. NotZip)" init 4 5 "Fin (37 / 2)" 3]
    validity_filter [of "example_env (\<lambda>f. NotZip)" init 9 5 "Fin (37 / 2)" 3]
    validity_filter [of "example_env (\<lambda>f. NotZip)" init 4 9 "Fin (37 / 2)" 3]
    validity_filter [of "example_env (\<lambda>f. NotZip)" init 4 5 "Fin 0" 3]
    validity_filter [of "example_env (\<lambda>f. NotZip)" init 4 5 "Fin 99" 3]
    validity_filter [of "example_env (\<lambda>f. NotZip)" init 4 5 "Fin (37 / 2)" "- 1"]
  by (auto simp add: accumulator_def accumulate_def init_def)


section \<open>Selecting files by year\<close>

lemma fieldDict_11: "fieldDict 11 = Some (Some layout11)"
  by (simp add: fieldDict_def layout11_def)

lemma fieldDict_selected:
  "11 \<le> yr \<Longrightarrow> yr \<le> 14 \<Longrightarrow> \<exists>lay. fieldDict yr = Some (Some lay)"
  by (simp add: fieldDict_def)

lemma fieldDict_beyond: "14 < yr \<Longrightarrow> fieldDict yr = None"
  by (simp add: fieldDict_def)

lemma file_body_unparsed:
  "py_int (py_slice name 6 8) = None \<Longrightarrow> file_body ev st name = (st, Some ValueError)"
  by (simp add: file_body_def int_of_str_def)

lemma file_body_early:
  "py_int (py_slice name 6 8) = Some yr \<Longrightarrow> yr < 11 \<Longrightarrow>
   file_body ev st name = (st, Some ZeroDivisionError)"
  by (simp add: file_body_def int_of_str_def)

lemma file_body_selected:
  "py_int (py_slice name 6 8) = Some yr \<Longrightarrow> 11 \<le> yr \<Longrightarrow> fieldDict yr = Some (Some lay) \<Longrightarrow>
   file_body ev st name =
     (case archive ev name of
        NotZip \<Rightarrow> (st\<lparr>out := out st @ [FileName name]\<rparr>, Some BadZipFile)
      | Zip ms \<Rightarrow>
          if length ms = 1
          then process_records ev lay yr (st\<lparr>out := out st @ [FileName name]\<rparr>) (hd ms)
          else (st\<lparr>out := out st @ [FileName name]\<rparr>, Some AssertionError))"
  by (simp add: file_body_def int_of_str_def Let_def)

lemma file_body_beyond:
  "py_int (py_slice name 6 8) = Some yr \<Longrightarrow> 14 < yr \<Longrightarrow>
   file_body ev st name = (st\<lparr>out := out st @ [FileName name]\<rparr>, Some KeyError)"
  by (simp add: file_body_def int_of_str_def Let_def fieldDict_beyond)

lemma out_progress: "length (out st) \<le> length (out (progress ev st))"
  by (simp add: progress_def Let_def)

lemma out_observe: "observe ev st ob = Inr st' \<Longrightarrow> length (out st) \<le> length (out st')"
proof (cases "valid ob")
  case True
  assume o: "observe ev st ob = Inr st'"
  obtain education income bmi y where ob: "ob = (education, income, bmi, y)"
    by (cases ob) auto
  have "st' = progress ev (accumulate st (design income education bmi) y)"
    using o True observe_valid [of education income bmi y ev st] by (simp add: ob)
  then show ?thesis
    using out_progress [of "accumulate st (design income education bmi) y" ev]
    by (simp add: accumulate_def)
next
  case False
  assume "observe ev st ob = Inr st'"
  then show ?thesis using False by (simp add: observe_invalid)
qed

lemma out_process_records:
  "length (out st) \<le> length (out (fst (process_records ev lay yr st rs)))"
proof (induction rs arbitrary: st)
  case Nil
  then show ?case by simp
next
  case (Cons r rs)
  show ?case
  proof (cases "process_record ev lay yr st r")
    case (Inl e)
    then show ?thesis by simp
  next
    case (Inr st')
    then have "length (out st) \<le> length (out st')"
      by (auto simp add: process_record_def split: sum.splits dest: out_observe)
    then show ?thesis using Cons [of st'] Inr by simp
  qed
qed

lemma process_file_changes:
  assumes "py_int (py_slice name 6 8) = Some yr" and "11 \<le> yr"
  shows "process_file ev st name \<noteq> Inr st"
proof -
  let ?st1 = "st\<lparr>out := out st @ [FileName name]\<rparr>"
  have "length (out st) < length (out (fst (file_body ev st name)))"
  proof (cases "fieldDict yr")
    case None
    then show ?thesis using assms by (simp add: file_body_def int_of_str_def Let_def)
  next
    case (Some v)
    show ?thesis
    proof (cases v)
      case None
      then show ?thesis using assms Some by (simp add: file_body_def int_of_str_def Let_def)
    next
      case (Some lay)
      have "length (out ?st1) \<le> length (out (fst (process_records ev lay yr ?st1 rs)))" for rs
        by (rule out_process_records)
      moreover have "length (out ?st1) = Suc (length (out st))"
        by simp
      ultimately have "length (out st) < length (out (fst (process_records ev lay yr ?st1 rs)))"
        for rs
        by (simp only: Suc_le_eq)
      then show ?thesis
        using assms Some \<open>fieldDict yr = Some v\<close> file_body_selected [of name yr lay ev st]
        by (simp split: zip.splits)
    qed
  qed
  then show ?thesis
    by (auto simp add: process_file_def split: prod.splits option.splits if_splits)
qed

lemma process_files_append:
  "process_files ev st (xs @ ys) =
     (case process_files ev st xs of Inl e \<Rightarrow> Inl e | Inr st' \<Rightarrow> process_files ev st' ys)"
  by (induction xs arbitrary: st) (simp_all split: sum.splits)

lemma process_records_append:
  "process_records ev lay yr st (xs @ ys) =
     (case process_records ev lay yr st xs of
        (st', None) \<Rightarrow> process_records ev lay yr st' ys
      | (st', Some e) \<Rightarrow> (st', Some e))"
  by (induction xs arbitrary: st) (simp_all split: sum.splits)

lemma year_codes:
  "py_int (py_slice ''LLCP2011.zip'' 6 8) = Some 11"
  "py_int (py_slice ''LLCP2012.zip'' 6 8) = Some 12"
  "py_int (py_slice ''LLCP2015.zip'' 6 8) = Some 15"
  "py_int (py_slice ''CDBRFS10.zip'' 6 8) = Some 10"
  "py_int (py_slice ''LLCPASC11.zip'' 6 8) = None"
  "py_int (py_slice ''LLCPASC11.zip'' 7 9) = Some 11"
  "py_int (py_slice ''readme.txt'' 6 8) = None"
  by code_simp+

text \<open>
  C8, as stated, reads the year code from the characters 7 and 8 (counted from 0) and lets
  every file with a code of 2011 or later proceed to record processing. The code reads
  \<^verbatim>\<open>filename[6:8]\<close>, the characters 6 and 7: \<^verbatim>\<open>LLCPASC11.zip\<close> has \<^verbatim>\<open>11\<close> at 7 and 8 and is
  skipped all the same. And a code above 14 has no entry in the layout table:
  \<^verbatim>\<open>LLCP2015.zip\<close> ends the script with KeyError.
\<close>

theorem year_selection_counterexample:
  "py_int (py_slice ''LLCPASC11.zip'' 7 9) = Some 11
   \<and> process_file (example_env (\<lambda>f. Zip [[]])) init ''LLCPASC11.zip'' = Inr init
   \<and> process_file (example_env (\<lambda>f. Zip [[]])) init ''LLCP2015.zip'' = Inl KeyError"
  by (simp add: year_codes process_file_def file_body_unparsed
      file_body_beyond [of "''LLCP2015.zip''" 15])

text \<open>
  C8, amended: the year code is \<^verbatim>\<open>int(filename[6:8])\<close>, the characters 6 and 7 counted from
  0. The file is skipped (nothing printed, the state unchanged, the next file follows)
  exactly when that substring does not parse as an integer or the code is below 11. With
  a code from 11 to 14 the file name is printed and the file proceeds with the layout of
  its year: its archive is opened and the records of its one member are processed.
\<close>

theorem year_selection:
  "(process_file ev st name = Inr st
      \<longleftrightarrow> (case py_int (py_slice name 6 8) of None \<Rightarrow> True | Some yr \<Rightarrow> yr < 11))
   \<and> (\<forall>yr. py_int (py_slice name 6 8) = Some yr \<and> 11 \<le> yr \<and> yr \<le> 14 \<longrightarrow>
         (\<exists>lay. fieldDict yr = Some (Some lay) \<and>
            file_body ev st name =
              (case archive ev name of
                 NotZip \<Rightarrow> (st\<lparr>out := out st @ [FileName name]\<rparr>, Some BadZipFile)
               | Zip ms \<Rightarrow>
                   if length ms = 1
                   then process_records ev lay yr (st\<lparr>out := out st @ [FileName name]\<rparr>) (hd ms)
                   else (st\<lparr>out := out st @ [FileName name]\<rparr>, Some AssertionError))))"
proof (intro conjI allI impI)
  show "process_file ev st name = Inr st
      \<longleftrightarrow> (case py_int (py_slice name 6 8) of None \<Rightarrow> True | Some yr \<Rightarrow> yr < 11)"
  proof (cases "py_int (py_slice name 6 8)")
    case None
    then show ?thesis by (simp add: process_file_def file_body_unparsed)
  next
    case (Some yr)
    show ?thesis
    proof (cases "yr < 11")
      case True
      then show ?thesis using Some by (simp add: process_file_def file_body_early)
    next
      case False
      then show ?thesis using Some process_file_changes [of name yr ev st] by simp
    qed
  qed
next
  fix yr
  assume a: "py_int (py_slice name 6 8) = Some yr \<and> 11 \<le> yr \<and> yr \<le> 14"
  then obtain lay where "fieldDict yr = Some (Some lay)"
    using fieldDict_selected [of yr] by auto
  then show "\<exists>lay. fieldDict yr = Some (Some lay) \<and>
            file_body ev st name =
              (case archive ev name of
                 NotZip \<Rightarrow> (st\<lparr>out := out st @ [FileName name]\<rparr>, Some BadZipFile)
               | Zip ms \<Rightarrow>
                   if length ms = 1
                   then process_records ev lay yr (st\<lparr>out := out st @ [FileName name]\<rparr>) (hd ms)
                   else (st\<lparr>out := out st @ [FileName name]\<rparr>, Some AssertionError))"
    using a file_body_selected [of name yr lay ev st] by auto
qed

theorem year_selection_witness:
  "process_file (example_env (\<lambda>f. Zip [[]])) init ''CDBRFS10.zip'' = Inr init
   \<and> process_file (example_env (\<lambda>f. Zip [[]])) init ''readme.txt'' = Inr init
   \<and> process_file (example_env (\<lambda>f. Zip [[]])) init ''LLCP2011.zip'' \<noteq> Inr init
   \<and> file_body (example_env (\<lambda>f. Zip [[]])) init ''LLCP2011.zip''
       = (init\<lparr>out := [FileName ''LLCP2011.zip'']\<rparr>, None)"
  using year_selection [of "example_env (\<lambda>f. Zip [[]])" init "''CDBRFS10.zip''"]
    year_selection [of "example_env (\<lambda>f. Zip [[]])" init "''readme.txt''"]
    year_selection [of "example_env (\<lambda>f. Zip [[]])" init "''LLCP2011.zip''"]
  by (simp add: year_codes fieldDict_11 example_env_def init_def)

section \<open>Archives without exactly one member\<close>

text \<open>
  C2, as stated, has a selected archive with two members skipped and the run go on with
  the remaining files. The assertion \<^verbatim>\<open>assert len(zipFileList) == 1\<close> raises AssertionError,
  which the handler for ValueError and ZeroDivisionError does not catch: the run of the
  two files ends with that exception, although the second file alone is processed.
\<close>

theorem multi_member_archive_counterexample:
  "run (example_env (\<lambda>f. if f = ''LLCP2011.zip'' then Zip [[], []] else Zip [[]]))
       [''LLCP2011.zip'', ''LLCP2012.zip''] = Inl AssertionError
   \<and> process_files (example_env (\<lambda>f. if f = ''LLCP2011.zip'' then Zip [[], []] else Zip [[]]))
       init [''LLCP2012.zip''] = Inr (init\<lparr>out := [FileName ''LLCP2012.zip'']\<rparr>)"
proof -
  let ?ev = "example_env (\<lambda>f. if f = ''LLCP2011.zip'' then Zip [[], []] else Zip [[]])"
  have "file_body ?ev init ''LLCP2011.zip''
      = (init\<lparr>out := out init @ [FileName ''LLCP2011.zip'']\<rparr>, Some AssertionError)"
    using file_body_selected [of "''LLCP2011.zip''" 11 layout11 ?ev init]
    by (simp add: year_codes fieldDict_11 example_env_def)
  then have a: "run ?ev [''LLCP2011.zip'', ''LLCP2012.zip''] = Inl AssertionError"
    by (simp add: run_def process_file_def)
  obtain lay where l: "fieldDict 12 = Some (Some lay)"
    using fieldDict_selected [of 12] by auto
  have "file_body ?ev init ''LLCP2012.zip''
      = (init\<lparr>out := out init @ [FileName ''LLCP2012.zip'']\<rparr>, None)"
    using file_body_selected [of "''LLCP2012.zip''" 12 lay ?ev init] l
    by (simp add: year_codes example_env_def)
  then have "process_files ?ev init [''LLCP2012.zip''] = Inr (init\<lparr>out := [FileName ''LLCP2012.zip'']\<rparr>)"
    by (simp add: process_file_def init_def)
  with a show ?thesis by simp
qed

text \<open>
  C2, amended: for every selected file (year code 11 to 14) whose archive does not have
  exactly one member the assertion raises AssertionError; it is not caught, so the file is
  not skipped: the run ends there with AssertionError, whatever files follow, and prints
  no summary.
\<close>

theorem multi_member_archive_aborts:
  assumes "py_int (py_slice name 6 8) = Some yr" and "11 \<le> yr" and "yr \<le> 14"
    and "archive ev name = Zip ms" and "length ms \<noteq> 1"
    and "process_files ev init pre = Inr st"
  shows "process_file ev st name = Inl AssertionError
    \<and> process_files ev init (pre @ name # rest) = Inl AssertionError
    \<and> run ev (pre @ name # rest) = Inl AssertionError"
proof -
  obtain lay where "fieldDict yr = Some (Some lay)"
    using assms(2,3) fieldDict_selected [of yr] by auto
  then have "file_body ev st name = (st\<lparr>out := out st @ [FileName name]\<rparr>, Some AssertionError)"
    using assms file_body_selected [of name yr lay ev st] by simp
  then have f: "process_file ev st name = Inl AssertionError"
    by (simp add: process_file_def)
  then have "process_files ev init (pre @ name # rest) = Inl AssertionError"
    using assms(6) by (simp add: process_files_append)
  then show ?thesis using f by (simp add: run_def)
qed

theorem multi_member_archive_aborts_witness:
  "process_file (example_env (\<lambda>f. if f = ''LLCP2011.zip'' then Zip [] else Zip [[]]))
       (init\<lparr>out := [FileName ''LLCP2012.zip'']\<rparr>) ''LLCP2011.zip'' = Inl AssertionError
   \<and> run (example_env (\<lambda>f. if f = ''LLCP2011.zip'' then Zip [] else Zip [[]]))
       [''LLCP2012.zip'', ''LLCP2011.zip'', ''LLCP2012.zip''] = Inl AssertionError"
proof -
  let ?ev = "example_env (\<lambda>f. if f = ''LLCP2011.zip'' then Zip [] else Zip [[]])"
  obtain lay where l: "fieldDict 12 = Some (Some lay)"
    using fieldDict_selected [of 12] by auto
  have "file_body ?ev init ''LLCP2012.zip''
      = (init\<lparr>out := out init @ [FileName ''LLCP2012.zip'']\<rparr>, None)"
    using file_body_selected [of "''LLCP2012.zip''" 12 lay ?ev init] l
    by (simp add: year_codes example_env_def)
  then have p: "process_files ?ev init [''LLCP2012.zip''] = Inr (init\<lparr>out := [FileName ''LLCP2012.zip'']\<rparr>)"
    by (simp add: process_file_def init_def)
  have a: "archive ?ev ''LLCP2011.zip'' = Zip []"
    by (simp add: example_env_def)
  show ?thesis
    using multi_member_archive_aborts [OF year_codes(1) _ _ a _ p, of "[''LLCP2012.zip'']"]
    by simp
qed

section \<open>Records that do not decode\<close>

lemma length_example_record:
  "length hlth = 1 \<Longrightarrow> length edu = 1 \<Longrightarrow> length inc = 2 \<Longrightarrow> length bmi = 4 \<Longrightarrow>
   length (example_record hlth edu inc bmi) = 1537"
  by (simp add: example_record_def)

lemma fields_example_record:
  assumes "length hlth = 1" "length edu = 1" "length inc = 2" "length bmi = 4"
  shows "py_index (example_record hlth edu inc bmi) 72 = Inr hlth"
    and "py_index (example_record hlth edu inc bmi) 121 = Inr edu"
    and "py_slice (example_record hlth edu inc bmi) 123 125 = inc"
    and "py_slice (example_record hlth edu inc bmi) 1532 1536 = bmi"
proof -
  obtain h where h: "hlth = [h]" using assms(1) by (cases hlth) simp_all
  obtain e where e: "edu = [e]" using assms(2) by (cases edu) simp_all
  show "py_index (example_record hlth edu inc bmi) 72 = Inr hlth"
    using assms by (simp add: py_index_def example_record_def h nth_append)
  show "py_index (example_record hlth edu inc bmi) 121 = Inr edu"
    using assms by (simp add: py_index_def example_record_def e h nth_append)
  show "py_slice (example_record hlth edu inc bmi) 123 125 = inc"
    using assms by (simp add: py_slice_def clamp_bound_def example_record_def)
  show "py_slice (example_record hlth edu inc bmi) 1532 1536 = bmi"
    using assms by (simp add: py_slice_def clamp_bound_def example_record_def)
qed

lemma decode_example_record:
  assumes "length hlth = 1" "length edu = 1" "length inc = 2" "length bmi = 4"
  shows "decode_record layout11 yr (example_record hlth edu inc bmi) =
     (case getEducation edu of Inl e \<Rightarrow> Inl e | Inr education \<Rightarrow>
      case getIncome inc of Inl e \<Rightarrow> Inl e | Inr income \<Rightarrow>
      case convertBMI bmi yr of Inl e \<Rightarrow> Inl e | Inr bmiv \<Rightarrow>
      case getHlth hlth of Inl e \<Rightarrow> Inl e | Inr y \<Rightarrow> Inr (education, income, bmiv, y))"
  using fields_example_record [OF assms]
  by (simp add: decode_record_def layout11_def split: sum.splits)

lemma decoder_examples:
  "getEducation ''4'' = Inr 4" "getIncome ''05'' = Inr 5" "getIncome ''x5'' = Inl ValueError"
  "getHlth ''3'' = Inr 3"
  by code_simp+

lemma decode_good:
  "decode_record layout11 11 (example_record ''3'' ''4'' ''05'' ''1850'')
     = Inr (4, 5, Fin (37 / 2), 3)"
  by (simp add: decode_example_record decoder_examples convertBMI_1850)

lemma decode_bad:
  "decode_record layout11 11 (example_record ''3'' ''4'' ''x5'' ''1850'') = Inl ValueError"
  by (simp add: decode_example_record decoder_examples)

lemma valid_good: "valid (4, 5, Fin (37 / 2), 3)"
  by (simp add: valid_def)

lemma process_good:
  "process_record ev layout11 11 st (example_record ''3'' ''4'' ''05'' ''1850'')
     = Inr (progress ev (accumulate st (design 5 4 (Fin (37 / 2))) 3))"
  by (simp add: process_record_def decode_good observe_valid valid_good)

lemma process_bad:
  "process_record ev layout11 11 st (example_record ''3'' ''4'' ''x5'' ''1850'') = Inl ValueError"
  by (simp add: process_record_def decode_bad)

text \<open>
  C1, as stated, has a record with a malformed field skipped alone, the later records of
  the file still being decoded. The decoders are called outside the inner \<^verbatim>\<open>try\<close>, so
  their ValueError is caught by the handler of the file: in a file of a malformed record
  followed by a good one nothing is accumulated, while the good record alone is.
\<close>

theorem decode_error_counterexample:
  "process_file
     (example_env (\<lambda>f. Zip [[example_record ''3'' ''4'' ''x5'' ''1850'',
                              example_record ''3'' ''4'' ''05'' ''1850'']]))
     init ''LLCP2011.zip'' = Inr (init\<lparr>out := [FileName ''LLCP2011.zip'']\<rparr>)
   \<and> (case process_file
            (example_env (\<lambda>f. Zip [[example_record ''3'' ''4'' ''05'' ''1850'']]))
            init ''LLCP2011.zip'' of Inl e \<Rightarrow> 0 | Inr st \<Rightarrow> n st) = 1"
proof -
  let ?bad = "example_record ''3'' ''4'' ''x5'' ''1850''"
  let ?good = "example_record ''3'' ''4'' ''05'' ''1850''"
  let ?st1 = "init\<lparr>out := out init @ [FileName ''LLCP2011.zip'']\<rparr>"
  have "file_body (example_env (\<lambda>f. Zip [[?bad, ?good]])) init ''LLCP2011.zip''
      = (?st1, Some ValueError)"
    using file_body_selected [of "''LLCP2011.zip''" 11 layout11
        "example_env (\<lambda>f. Zip [[?bad, ?good]])" init]
    by (simp add: year_codes fieldDict_11 example_env_def process_bad)
  then have a: "process_file (example_env (\<lambda>f. Zip [[?bad, ?good]])) init ''LLCP2011.zip''
      = Inr (init\<lparr>out := [FileName ''LLCP2011.zip'']\<rparr>)"
    by (simp add: process_file_def init_def)
  let ?ev = "example_env (\<lambda>f. Zip [[?good]])"
  have "file_body ?ev init ''LLCP2011.zip''
      = (progress ?ev (accumulate ?st1 (design 5 4 (Fin (37 / 2))) 3), None)"
    using file_body_selected [of "''LLCP2011.zip''" 11 layout11 ?ev init]
    by (simp add: year_codes fieldDict_11 example_env_def process_good)
  then have "process_file ?ev init ''LLCP2011.zip''
      = Inr (progress ?ev (accumulate ?st1 (design 5 4 (Fin (37 / 2))) 3))"
    by (simp add: process_file_def)
  moreover have "n (progress ?ev (accumulate ?st1 (design 5 4 (Fin (37 / 2))) 3)) = 1"
    by (simp add: progress_def accumulate_def init_def)
  ultimately show ?thesis using a by simp
qed

text \<open>
  C1, amended: when a decoder raises ValueError on a record, the processing of that file
  ends there: what the earlier records of the file accumulated is kept, the offending
  record and all later records of the file are not decoded, and the run continues with
  the next file.
\<close>

theorem decode_error_ends_file:
  assumes "py_int (py_slice name 6 8) = Some yr" and "11 \<le> yr"
    and "fieldDict yr = Some (Some lay)"
    and "archive ev name = Zip [pre @ r # post]"
    and "process_records ev lay yr (st\<lparr>out := out st @ [FileName name]\<rparr>) pre = (st', None)"
    and "decode_record lay yr r = Inl ValueError"
  shows "process_records ev lay yr (st\<lparr>out := out st @ [FileName name]\<rparr>) (pre @ r # post)
           = (st', Some ValueError)
    \<and> process_file ev st name = Inr st'
    \<and> process_files ev st (name # rest) = process_files ev st' rest"
proof -
  have "process_record ev lay yr st' r = Inl ValueError"
    using assms(6) by (simp add: process_record_def)
  then have a: "process_records ev lay yr (st\<lparr>out := out st @ [FileName name]\<rparr>) (pre @ r # post)
           = (st', Some ValueError)"
    using assms(5) by (simp add: process_records_append)
  then have "file_body ev st name = (st', Some ValueError)"
    using assms(1-4) file_body_selected [of name yr lay ev st] by simp
  then have b: "process_file ev st name = Inr st'"
    by (simp add: process_file_def)
  then show ?thesis using a by simp
qed

theorem decode_error_ends_file_witness:
  "process_file
     (example_env (\<lambda>f. Zip [[example_record ''3'' ''4'' ''05'' ''1850'',
                              example_record ''3'' ''4'' ''x5'' ''1850'',
                              example_record ''3'' ''4'' ''05'' ''1850'']]))
     init ''LLCP2011.zip''
   = Inr (accumulate (init\<lparr>out := [FileName ''LLCP2011.zip'']\<rparr>)
            (design 5 4 (Fin (37 / 2))) 3)"
proof -
  let ?bad = "example_record ''3'' ''4'' ''x5'' ''1850''"
  let ?good = "example_record ''3'' ''4'' ''05'' ''1850''"
  let ?ev = "example_env (\<lambda>f. Zip [[?good, ?bad, ?good]])"
  let ?st1 = "init\<lparr>out := out init @ [FileName ''LLCP2011.zip'']\<rparr>"
  let ?st' = "progress ?ev (accumulate ?st1 (design 5 4 (Fin (37 / 2))) 3)"
  have a: "archive ?ev ''LLCP2011.zip'' = Zip [[?good] @ ?bad # [?good]]"
    by (simp add: example_env_def)
  have p: "process_records ?ev layout11 11 ?st1 [?good] = (?st', None)"
    by (simp add: process_good)
  have e: "?st' = accumulate (init\<lparr>out := [FileName ''LLCP2011.zip'']\<rparr>)
            (design 5 4 (Fin (37 / 2))) 3"
    by (simp add: progress_def accumulate_def init_def)
  show ?thesis
    using decode_error_ends_file [OF year_codes(1) _ fieldDict_11 a p decode_bad, of "[]"] e
    by simp
qed


section \<open>The coefficients of the final report\<close>

lemma observe_step: "observe ev st ob = Inr (step ev st ob)"
  by (cases ob) (simp add: observe_def try_accumulate_def step_def accumulate_ob_def)

lemma core_step: "core st1 = core st2 \<Longrightarrow> core (step ev st1 ob) = core (step ev st2 ob)"
  by (cases ob) (simp add: core_def step_def accumulate_ob_def accumulate_def progress_def Let_def)

lemma core_foldl_step:
  "core st1 = core st2 \<Longrightarrow> core (foldl (step ev) st1 obs) = core (foldl (step ev) st2 obs)"
proof (induction obs arbitrary: st1 st2)
  case Nil
  then show ?case by simp
next
  case (Cons ob obs)
  have "core (step ev st1 ob) = core (step ev st2 ob)"
    using Cons.prems by (rule core_step)
  then have "core (foldl (step ev) (step ev st1 ob) obs) = core (foldl (step ev) (step ev st2 ob) obs)"
    by (rule Cons.IH)
  then show ?case by simp
qed

lemma process_records_decoded:
  "fst (process_records ev lay yr st recs) = foldl (step ev) st (decoded lay yr recs)"
  by (induction recs arbitrary: st)
     (simp_all add: process_record_def observe_step split: sum.splits)

lemma core_file_body:
  "core (fst (file_body ev st name)) = core (foldl (step ev) st (file_observations ev name))"
proof -
  let ?st1 = "st\<lparr>out := out st @ [FileName name]\<rparr>"
  have c: "core ?st1 = core st" by (simp add: core_def)
  have r: "core (fst (process_records ev lay yr ?st1 recs))
      = core (foldl (step ev) st (decoded lay yr recs))" for lay yr recs
    by (simp add: process_records_decoded core_foldl_step [OF c])
  show ?thesis
  proof (cases "py_int (py_slice name 6 8)")
    case None
    then show ?thesis
      by (simp add: file_body_def file_observations_def int_of_str_def)
  next
    case (Some yr)
    show ?thesis
    proof (cases "yr < 11")
      case True
      then show ?thesis
        using Some by (simp add: file_body_def file_observations_def int_of_str_def)
    next
      case False
      show ?thesis
      proof (cases "fieldDict yr")
        case None
        then show ?thesis
          using Some False
          by (simp add: file_body_def file_observations_def int_of_str_def Let_def c)
      next
        case fd: (Some v)
        show ?thesis
        proof (cases v)
          case None
          then show ?thesis
            using Some False fd
            by (simp add: file_body_def file_observations_def int_of_str_def Let_def c)
        next
          case lay: (Some lay)
          show ?thesis
          proof (cases "archive ev name")
            case NotZip
            then show ?thesis
              using Some False fd lay
              by (simp add: file_body_def file_observations_def int_of_str_def Let_def c)
          next
            case (Zip ms)
            show ?thesis
            proof (cases "length ms = 1")
              case True
              then obtain recs where "ms = [recs]"
                by (cases ms) auto
              then show ?thesis
                using Some False fd lay Zip r [of lay yr recs]
                by (simp add: file_body_def file_observations_def int_of_str_def Let_def)
            next
              case nl: False
              then have "(case ms of [recs] \<Rightarrow> decoded lay yr recs | _ \<Rightarrow> []) = []"
                by (cases ms) (auto split: list.splits)
              then show ?thesis
                using Some False fd lay Zip nl
                by (simp add: file_body_def file_observations_def int_of_str_def Let_def c)
            qed
          qed
        qed
      qed
    qed
  qed
qed

lemma core_process_file:
  "process_file ev st name = Inr st' \<Longrightarrow>
   core st' = core (foldl (step ev) st (file_observations ev name))"
  using core_file_body [of ev st name]
  by (auto simp add: process_file_def split: prod.splits option.splits if_splits)

lemma core_process_files:
  "process_files ev st files = Inr st' \<Longrightarrow>
   core st' = core (foldl (step ev) st (run_observations ev files))"
proof (induction files arbitrary: st)
  case Nil
  then show ?case by (simp add: run_observations_def)
next
  case (Cons name files)
  then obtain st1 where p: "process_file ev st name = Inr st1"
    and q: "process_files ev st1 files = Inr st'"
    by (auto split: sum.splits)
  have "core st' = core (foldl (step ev) st1 (run_observations ev files))"
    using Cons.IH [OF q] .
  also have "\<dots> = core (foldl (step ev) (foldl (step ev) st (file_observations ev name))
                        (run_observations ev files))"
    using core_process_file [OF p] by (rule core_foldl_step)
  finally show ?case by (simp add: run_observations_def)
qed

lemma totals_snoc: "totals (acc @ [ob]) = accumulate_ob (totals acc) ob"
  by (simp add: totals_def)

lemma accumulate_ob_fields:
  "A (accumulate_ob st (education, income, bmi, y)) = mat_add (A st) (outer (design income education bmi))"
  "z (accumulate_ob st (education, income, bmi, y)) = vec_add (z st) (scale (design income education bmi) y)"
  "sumSqrs (accumulate_ob st (education, income, bmi, y)) = sumSqrs st + y ^ 2"
  "n (accumulate_ob st (education, income, bmi, y)) = n st + 1"
  "b (accumulate_ob st (education, income, bmi, y)) = b st"
  "out (accumulate_ob st (education, income, bmi, y)) = out st"
  by (simp_all add: accumulate_ob_def accumulate_def)

lemma n_totals: "n (totals acc) = int (length acc)"
proof (induction acc rule: rev_induct)
  case Nil
  then show ?case by (simp add: totals_def init_def)
next
  case (snoc ob acc)
  then show ?case by (cases ob) (simp add: totals_snoc accumulate_ob_fields)
qed

lemma last_report_snoc:
  "last_report ev (acc @ [ob]) =
     (if Suc (length acc) mod 10000 = 0
      then Some (pinv_matmul ev (A (totals (acc @ [ob]))) (z (totals (acc @ [ob]))))
      else last_report ev acc)"
proof (cases "Suc (length acc) mod 10000 = 0")
  case True
  have "10000 * (Suc (length acc) div 10000) + Suc (length acc) mod 10000 = Suc (length acc)"
    by (rule mult_div_mod_eq)
  then have k: "10000 * (Suc (length acc) div 10000) = Suc (length acc)"
    using True by simp
  have "\<not> Suc (length acc) < 10000"
  proof
    assume "Suc (length acc) < 10000"
    then have "Suc (length acc) mod 10000 = Suc (length acc)" by (rule mod_less)
    with True show False by simp
  qed
  then show ?thesis using True k by (simp add: last_report_def Let_def)
next
  case False
  then have d: "Suc (length acc) div 10000 = length acc div 10000"
    by (simp add: div_Suc)
  have l: "Suc (length acc) < 10000 \<longleftrightarrow> length acc < 10000"
  proof
    assume "Suc (length acc) < 10000"
    then show "length acc < 10000" by simp
  next
    assume a: "length acc < 10000"
    have "Suc (length acc) \<noteq> 10000"
    proof
      assume "Suc (length acc) = 10000"
      then have "Suc (length acc) mod 10000 = 0" by simp
      with False show False by simp
    qed
    with a show "Suc (length acc) < 10000" by simp
  qed
  have "10000 * (length acc div 10000) + length acc mod 10000 = length acc"
    by (rule mult_div_mod_eq)
  then have "10000 * (length acc div 10000) \<le> length acc"
    by linarith
  then have "take (10000 * (length acc div 10000)) (acc @ [ob])
      = take (10000 * (length acc div 10000)) acc"
    by simp
  then show ?thesis using False d l by (simp add: last_report_def Let_def)
qed

lemma core_run:
  "core (foldl (step ev) init obs) =
     (A (totals (filter valid obs)), z (totals (filter valid obs)),
      sumSqrs (totals (filter valid obs)), int (length (filter valid obs)),
      last_report ev (filter valid obs))"
proof (induction obs rule: rev_induct)
  case Nil
  then show ?case by (simp add: core_def totals_def init_def last_report_def)
next
  case (snoc ob obs)
  let ?S = "foldl (step ev) init obs"
  let ?acc = "filter valid obs"
  show ?case
  proof (cases "valid ob")
    case False
    then show ?thesis using snoc by (simp add: step_def)
  next
    case True
    obtain education income bmi y where ob: "ob = (education, income, bmi, y)"
      by (cases ob) auto
    let ?S1 = "accumulate_ob ?S ob"
    have f: "A ?S = A (totals ?acc)" "z ?S = z (totals ?acc)"
      "sumSqrs ?S = sumSqrs (totals ?acc)" "n ?S = int (length ?acc)"
      "b ?S = last_report ev ?acc"
      using snoc by (simp_all add: core_def)
    have a1: "A ?S1 = A (totals (?acc @ [ob]))" "z ?S1 = z (totals (?acc @ [ob]))"
      "sumSqrs ?S1 = sumSqrs (totals (?acc @ [ob]))"
      by (simp_all add: ob totals_snoc accumulate_ob_fields f)
    have n1: "n ?S1 = int (Suc (length ?acc))"
      by (simp add: ob accumulate_ob_fields f)
    have b1: "b ?S1 = last_report ev ?acc"
      by (simp add: ob accumulate_ob_fields f)
    have "int (Suc (length ?acc)) mod 10000 = int (Suc (length ?acc) mod 10000)"
      by (simp add: zmod_int)
    then have m: "(n ?S1 mod 10000 = 0 \<and> n ?S1 \<noteq> 0) \<longleftrightarrow> Suc (length ?acc) mod 10000 = 0"
      unfolding n1 by (simp only: of_nat_eq_0_iff) simp
    have "core (progress ev ?S1) =
        (A (totals (?acc @ [ob])), z (totals (?acc @ [ob])),
         sumSqrs (totals (?acc @ [ob])), int (Suc (length ?acc)),
         last_report ev (?acc @ [ob]))"
    proof (cases "Suc (length ?acc) mod 10000 = 0")
      case True
      then have "n ?S1 mod 10000 = 0 \<and> n ?S1 \<noteq> 0"
        using m by (simp only: simp_thms)
      then have "progress ev ?S1 = (let bv = pinv_matmul ev (A ?S1) (z ?S1)
          in ?S1\<lparr>b := Some bv, out := out ?S1 @ [Coefficients bv]\<rparr>)"
        unfolding progress_def by (rule if_P)
      then show ?thesis
        using True by (simp add: core_def Let_def a1 n1 last_report_snoc)
    next
      case False
      then have "\<not> (n ?S1 mod 10000 = 0 \<and> n ?S1 \<noteq> 0)"
        using m by (simp only: simp_thms)
      then have "progress ev ?S1 = ?S1"
        unfolding progress_def by (rule if_not_P)
      then show ?thesis
        using False by (simp add: core_def a1 n1 b1 last_report_snoc)
    qed
    moreover have "foldl (step ev) init (obs @ [ob]) = progress ev ?S1"
      using True by (simp add: step_def [of ev ?S ob])
    moreover have "filter valid (obs @ [ob]) = ?acc @ [ob]"
      using True by simp
    ultimately show ?thesis by simp
  qed
qed

lemma finalize_unbound: "b st = None \<Longrightarrow> finalize ev st = Inl NameError"
  by (simp add: finalize_def Let_def)

lemma finalize_summary:
  "finalize ev st = Inr st' \<Longrightarrow>
   \<exists>bv r. b st = Some bv \<and>
     out st' = out st @ [Header [''n'', ''b0'', ''inc'', ''edu'', ''bmi'', ''r^2_adj''],
                         Summary (n st) (map round3 bv) r]"
  by (auto simp add: finalize_def Let_def split: option.splits sum.splits)

text \<open>
  C6: the vector \<open>b\<close> of the final report is not computed from the final state. After a
  run that reaches the finalization, \<open>n\<close> is the number of accepted observations and \<open>b\<close>
  is the estimate of the most recent progress report, computed from the sums over the
  first \<open>10000 * \<lfloor>n / 10000\<rfloor>\<close> accepted observations; the summary line, when it is
  printed, rounds that vector. With fewer than 10000 accepted observations \<open>b\<close> is
  unbound and the run ends with NameError instead of a summary.
\<close>

theorem stale_coefficients:
  assumes "process_files ev init fileList = Inr st"
  shows "n st = int (length (filter valid (run_observations ev fileList)))
    \<and> b st = last_report ev (filter valid (run_observations ev fileList))
    \<and> (length (filter valid (run_observations ev fileList)) < 10000
         \<longrightarrow> b st = None \<and> run ev fileList = Inl NameError)
    \<and> (\<forall>st'. finalize ev st = Inr st' \<longrightarrow>
          (\<exists>r. out st' = out st @
             [Header [''n'', ''b0'', ''inc'', ''edu'', ''bmi'', ''r^2_adj''],
              Summary (n st)
                (map round3 (the (last_report ev (filter valid (run_observations ev fileList)))))
                r]))"
proof -
  let ?acc = "filter valid (run_observations ev fileList)"
  have c: "core st = core (foldl (step ev) init (run_observations ev fileList))"
    using assms by (rule core_process_files)
  have nn: "n st = int (length ?acc)" and bb: "b st = last_report ev ?acc"
    using c by (simp_all add: core_run) (simp_all add: core_def)
  have small: "b st = None \<and> run ev fileList = Inl NameError" if "length ?acc < 10000"
  proof -
    have "b st = None" using that bb by (simp add: last_report_def)
    then show ?thesis using assms by (simp add: run_def finalize_unbound)
  qed
  have fin: "\<exists>r. out st' = out st @
             [Header [''n'', ''b0'', ''inc'', ''edu'', ''bmi'', ''r^2_adj''],
              Summary (n st) (map round3 (the (last_report ev ?acc))) r]"
    if "finalize ev st = Inr st'" for st'
    using finalize_summary [OF that] bb by auto
  show ?thesis using nn bb small fin by blast
qed

theorem stale_coefficients_witness:
  "run (example_env (\<lambda>f. Zip [[example_record ''3'' ''4'' ''05'' ''1850'']]))
     [''LLCP2011.zip''] = Inl NameError"
proof -
  let ?good = "example_record ''3'' ''4'' ''05'' ''1850''"
  let ?ev = "example_env (\<lambda>f. Zip [[?good]])"
  let ?st1 = "init\<lparr>out := out init @ [FileName ''LLCP2011.zip'']\<rparr>"
  have "file_body ?ev init ''LLCP2011.zip''
      = (progress ?ev (accumulate ?st1 (design 5 4 (Fin (37 / 2))) 3), None)"
    using file_body_selected [of "''LLCP2011.zip''" 11 layout11 ?ev init]
    by (simp add: year_codes fieldDict_11 example_env_def process_good)
  then have p: "process_files ?ev init [''LLCP2011.zip'']
      = Inr (progress ?ev (accumulate ?st1 (design 5 4 (Fin (37 / 2))) 3))"
    by (simp add: process_file_def)
  have o: "run_observations ?ev [''LLCP2011.zip''] = [(4, 5, Fin (37 / 2), 3)]"
    by (simp add: run_observations_def file_observations_def year_codes fieldDict_11
        example_env_def decode_good)
  show ?thesis
    using stale_coefficients [OF p] o valid_good by simp
qed


section \<open>The final report\<close>







lemma np_float_numeral:
  "numeral w \<le> (2::int) ^ 53 \<Longrightarrow> np_float (numeral w) = Fin (numeral w)"
  using np_float_small [of "numeral w"] by simp

lemma np_float_one: "np_float 1 = Fin 1"
  using np_float_small [of 1] by simp





















section \<open>The order of the observations\<close>

text \<open>
  The doubles the decoder returns for the BMI fields \<^verbatim>\<open>2480\<close>, \<^verbatim>\<open>2540\<close> and \<^verbatim>\<open>2760\<close>, then
  every product and every sum from the left that the entries of \<open>A\<close> and \<open>z\<close> with a BMI
  factor take for the three example observations, in their order and in the reverse
  order. Each rounding is checked against the exponent and the 53-bit significand of its
  result.
\<close>

lemma scaled_2480: "fmul (Fin (5764607523034235 / 576460752303423488)) (Fin 2480) = Fin (6980579422424269 / 281474976710656)"
proof -
  have "round_double ((5764607523034235 / 576460752303423488) * 2480) = Fin (of_int 6980579422424269 * pow2 (max 4 (- 1022) - 52))"
    by (rule round_double_pos) (simp_all add: pow2_def round_half_even_near)
  then show ?thesis by (simp add: pow2_def)
qed

lemma py_float_2480: "py_float ''2480'' = Some (Fin 2480)"
proof -
  have "float_literal ''2480'' = Some (Inr 2480)" by code_simp
  moreover have "round_double (of_int 2480) = Fin (of_int 2480)"
    by (rule round_double_int) simp
  ultimately show ?thesis by (simp add: py_float_def)
qed

lemma convertBMI_2480: "convertBMI ''2480'' 11 = Inr (Fin (6980579422424269 / 281474976710656))"
  using scaled_2480
  by (simp add: convertBMI_def scaled_def float_of_str_def py_float_2480 double_hundredth)

lemma scaled_2540: "fmul (Fin (5764607523034235 / 576460752303423488)) (Fin 2540) = Fin (7149464408450663 / 281474976710656)"
proof -
  have "round_double ((5764607523034235 / 576460752303423488) * 2540) = Fin (of_int 7149464408450663 * pow2 (max 4 (- 1022) - 52))"
    by (rule round_double_pos) (simp_all add: pow2_def round_half_even_near)
  then show ?thesis by (simp add: pow2_def)
qed

lemma py_float_2540: "py_float ''2540'' = Some (Fin 2540)"
proof -
  have "float_literal ''2540'' = Some (Inr 2540)" by code_simp
  moreover have "round_double (of_int 2540) = Fin (of_int 2540)"
    by (rule round_double_int) simp
  ultimately show ?thesis by (simp add: py_float_def)
qed

lemma convertBMI_2540: "convertBMI ''2540'' 11 = Inr (Fin (7149464408450663 / 281474976710656))"
  using scaled_2540
  by (simp add: convertBMI_def scaled_def float_of_str_def py_float_2540 double_hundredth)

lemma scaled_2760: "fmul (Fin (5764607523034235 / 576460752303423488)) (Fin 2760) = Fin (3884354678607053 / 140737488355328)"
proof -
  have "round_double ((5764607523034235 / 576460752303423488) * 2760) = Fin (of_int 7768709357214106 * pow2 (max 4 (- 1022) - 52))"
    by (rule round_double_pos) (simp_all add: pow2_def round_half_even_near)
  then show ?thesis by (simp add: pow2_def)
qed

lemma py_float_2760: "py_float ''2760'' = Some (Fin 2760)"
proof -
  have "float_literal ''2760'' = Some (Inr 2760)" by code_simp
  moreover have "round_double (of_int 2760) = Fin (of_int 2760)"
    by (rule round_double_int) simp
  ultimately show ?thesis by (simp add: py_float_def)
qed

lemma convertBMI_2760: "convertBMI ''2760'' 11 = Inr (Fin (3884354678607053 / 140737488355328))"
  using scaled_2760
  by (simp add: convertBMI_def scaled_def float_of_str_def py_float_2760 double_hundredth)

lemma product_1: "fmul (Fin 1) (Fin (6980579422424269 / 281474976710656)) = Fin (6980579422424269 / 281474976710656)"
proof -
  have "round_double (1 * (6980579422424269 / 281474976710656)) = Fin (of_int 6980579422424269 * pow2 (max 4 (- 1022) - 52))"
    by (rule round_double_pos) (simp_all add: pow2_def round_half_even_near)
  then show ?thesis by (simp add: pow2_def)
qed

lemma sum_2: "fadd (Fin 0) (Fin (6980579422424269 / 281474976710656)) = Fin (6980579422424269 / 281474976710656)"
proof -
  have "round_double (0 + (6980579422424269 / 281474976710656)) = Fin (of_int 6980579422424269 * pow2 (max 4 (- 1022) - 52))"
    by (rule round_double_pos) (simp_all add: pow2_def round_half_even_near)
  then show ?thesis by (simp add: pow2_def)
qed

lemma product_3: "fmul (Fin 1) (Fin (7149464408450663 / 281474976710656)) = Fin (7149464408450663 / 281474976710656)"
proof -
  have "round_double (1 * (7149464408450663 / 281474976710656)) = Fin (of_int 7149464408450663 * pow2 (max 4 (- 1022) - 52))"
    by (rule round_double_pos) (simp_all add: pow2_def round_half_even_near)
  then show ?thesis by (simp add: pow2_def)
qed

lemma sum_4: "fadd (Fin (6980579422424269 / 281474976710656)) (Fin (7149464408450663 / 281474976710656)) = Fin (3532510957718733 / 70368744177664)"
proof -
  have "round_double ((6980579422424269 / 281474976710656) + (7149464408450663 / 281474976710656)) = Fin (of_int 7065021915437466 * pow2 (max 5 (- 1022) - 52))"
    by (rule round_double_pos) (simp_all add: pow2_def round_half_even_near)
  then show ?thesis by (simp add: pow2_def)
qed

lemma product_5: "fmul (Fin 1) (Fin (3884354678607053 / 140737488355328)) = Fin (3884354678607053 / 140737488355328)"
proof -
  have "round_double (1 * (3884354678607053 / 140737488355328)) = Fin (of_int 7768709357214106 * pow2 (max 4 (- 1022) - 52))"
    by (rule round_double_pos) (simp_all add: pow2_def round_half_even_near)
  then show ?thesis by (simp add: pow2_def)
qed

lemma sum_6: "fadd (Fin (3532510957718733 / 70368744177664)) (Fin (3884354678607053 / 140737488355328)) = Fin (1368672074255565 / 17592186044416)"
proof -
  have "round_double ((3532510957718733 / 70368744177664) + (3884354678607053 / 140737488355328)) = Fin (of_int 5474688297022260 * pow2 (max 6 (- 1022) - 52))"
    by (rule round_double_pos) (simp_all add: pow2_def round_half_even_tie_up)
  then show ?thesis by (simp add: pow2_def)
qed

lemma product_7: "fmul (Fin 6) (Fin (6980579422424269 / 281474976710656)) = Fin (2617717283409101 / 17592186044416)"
proof -
  have "round_double (6 * (6980579422424269 / 281474976710656)) = Fin (of_int 5235434566818202 * pow2 (max 7 (- 1022) - 52))"
    by (rule round_double_pos) (simp_all add: pow2_def round_half_even_near)
  then show ?thesis by (simp add: pow2_def)
qed

lemma sum_8: "fadd (Fin 0) (Fin (2617717283409101 / 17592186044416)) = Fin (2617717283409101 / 17592186044416)"
proof -
  have "round_double (0 + (2617717283409101 / 17592186044416)) = Fin (of_int 5235434566818202 * pow2 (max 7 (- 1022) - 52))"
    by (rule round_double_pos) (simp_all add: pow2_def round_half_even_near)
  then show ?thesis by (simp add: pow2_def)
qed

lemma product_9: "fmul (Fin 7) (Fin (7149464408450663 / 281474976710656)) = Fin (3127890678697165 / 17592186044416)"
proof -
  have "round_double (7 * (7149464408450663 / 281474976710656)) = Fin (of_int 6255781357394330 * pow2 (max 7 (- 1022) - 52))"
    by (rule round_double_pos) (simp_all add: pow2_def round_half_even_near)
  then show ?thesis by (simp add: pow2_def)
qed

lemma sum_10: "fadd (Fin (2617717283409101 / 17592186044416)) (Fin (3127890678697165 / 17592186044416)) = Fin (2872803981053133 / 8796093022208)"
proof -
  have "round_double ((2617717283409101 / 17592186044416) + (3127890678697165 / 17592186044416)) = Fin (of_int 5745607962106266 * pow2 (max 8 (- 1022) - 52))"
    by (rule round_double_pos) (simp_all add: pow2_def round_half_even_near)
  then show ?thesis by (simp add: pow2_def)
qed

lemma product_11: "fmul (Fin 4) (Fin (3884354678607053 / 140737488355328)) = Fin (3884354678607053 / 35184372088832)"
proof -
  have "round_double (4 * (3884354678607053 / 140737488355328)) = Fin (of_int 7768709357214106 * pow2 (max 6 (- 1022) - 52))"
    by (rule round_double_pos) (simp_all add: pow2_def round_half_even_near)
  then show ?thesis by (simp add: pow2_def)
qed

lemma sum_12: "fadd (Fin (2872803981053133 / 8796093022208)) (Fin (3884354678607053 / 35184372088832)) = Fin 437"
proof -
  have "round_double ((2872803981053133 / 8796093022208) + (3884354678607053 / 35184372088832)) = Fin (of_int 7687785301409792 * pow2 (max 8 (- 1022) - 52))"
    by (rule round_double_pos) (simp_all add: pow2_def round_half_even_tie_down)
  then show ?thesis by (simp add: pow2_def)
qed

lemma product_13: "fmul (Fin 5) (Fin (6980579422424269 / 281474976710656)) = Fin 124"
proof -
  have "round_double (5 * (6980579422424269 / 281474976710656)) = Fin (of_int 8725724278030336 * pow2 (max 6 (- 1022) - 52))"
    by (rule round_double_pos) (simp_all add: pow2_def round_half_even_near)
  then show ?thesis by (simp add: pow2_def)
qed

lemma sum_14: "fadd (Fin 0) (Fin 124) = Fin 124"
proof -
  have "round_double (0 + 124) = Fin (of_int 8725724278030336 * pow2 (max 6 (- 1022) - 52))"
    by (rule round_double_pos) (simp_all add: pow2_def round_half_even_near)
  then show ?thesis by (simp add: pow2_def)
qed

lemma product_15: "fmul (Fin 6) (Fin (7149464408450663 / 281474976710656)) = Fin (5362098306337997 / 35184372088832)"
proof -
  have "round_double (6 * (7149464408450663 / 281474976710656)) = Fin (of_int 5362098306337997 * pow2 (max 7 (- 1022) - 52))"
    by (rule round_double_pos) (simp_all add: pow2_def round_half_even_near)
  then show ?thesis by (simp add: pow2_def)
qed

lemma sum_16: "fadd (Fin 124) (Fin (5362098306337997 / 35184372088832)) = Fin (2431240111338291 / 8796093022208)"
proof -
  have "round_double (124 + (5362098306337997 / 35184372088832)) = Fin (of_int 4862480222676582 * pow2 (max 8 (- 1022) - 52))"
    by (rule round_double_pos) (simp_all add: pow2_def round_half_even_tie_down)
  then show ?thesis by (simp add: pow2_def)
qed

lemma product_17: "fmul (Fin 2) (Fin (3884354678607053 / 140737488355328)) = Fin (3884354678607053 / 70368744177664)"
proof -
  have "round_double (2 * (3884354678607053 / 140737488355328)) = Fin (of_int 7768709357214106 * pow2 (max 5 (- 1022) - 52))"
    by (rule round_double_pos) (simp_all add: pow2_def round_half_even_near)
  then show ?thesis by (simp add: pow2_def)
qed

lemma sum_18: "fadd (Fin (2431240111338291 / 8796093022208)) (Fin (3884354678607053 / 70368744177664)) = Fin (5833568892328345 / 17592186044416)"
proof -
  have "round_double ((2431240111338291 / 8796093022208) + (3884354678607053 / 70368744177664)) = Fin (of_int 5833568892328345 * pow2 (max 8 (- 1022) - 52))"
    by (rule round_double_pos) (simp_all add: pow2_def round_half_even_near)
  then show ?thesis by (simp add: pow2_def)
qed

lemma product_19: "fmul (Fin (6980579422424269 / 281474976710656)) (Fin 1) = Fin (6980579422424269 / 281474976710656)"
proof -
  have "round_double ((6980579422424269 / 281474976710656) * 1) = Fin (of_int 6980579422424269 * pow2 (max 4 (- 1022) - 52))"
    by (rule round_double_pos) (simp_all add: pow2_def round_half_even_near)
  then show ?thesis by (simp add: pow2_def)
qed

lemma product_20: "fmul (Fin (7149464408450663 / 281474976710656)) (Fin 1) = Fin (7149464408450663 / 281474976710656)"
proof -
  have "round_double ((7149464408450663 / 281474976710656) * 1) = Fin (of_int 7149464408450663 * pow2 (max 4 (- 1022) - 52))"
    by (rule round_double_pos) (simp_all add: pow2_def round_half_even_near)
  then show ?thesis by (simp add: pow2_def)
qed

lemma product_21: "fmul (Fin (3884354678607053 / 140737488355328)) (Fin 1) = Fin (3884354678607053 / 140737488355328)"
proof -
  have "round_double ((3884354678607053 / 140737488355328) * 1) = Fin (of_int 7768709357214106 * pow2 (max 4 (- 1022) - 52))"
    by (rule round_double_pos) (simp_all add: pow2_def round_half_even_near)
  then show ?thesis by (simp add: pow2_def)
qed

lemma product_22: "fmul (Fin (6980579422424269 / 281474976710656)) (Fin 6) = Fin (2617717283409101 / 17592186044416)"
proof -
  have "round_double ((6980579422424269 / 281474976710656) * 6) = Fin (of_int 5235434566818202 * pow2 (max 7 (- 1022) - 52))"
    by (rule round_double_pos) (simp_all add: pow2_def round_half_even_near)
  then show ?thesis by (simp add: pow2_def)
qed

lemma product_23: "fmul (Fin (7149464408450663 / 281474976710656)) (Fin 7) = Fin (3127890678697165 / 17592186044416)"
proof -
  have "round_double ((7149464408450663 / 281474976710656) * 7) = Fin (of_int 6255781357394330 * pow2 (max 7 (- 1022) - 52))"
    by (rule round_double_pos) (simp_all add: pow2_def round_half_even_near)
  then show ?thesis by (simp add: pow2_def)
qed

lemma product_24: "fmul (Fin (3884354678607053 / 140737488355328)) (Fin 4) = Fin (3884354678607053 / 35184372088832)"
proof -
  have "round_double ((3884354678607053 / 140737488355328) * 4) = Fin (of_int 7768709357214106 * pow2 (max 6 (- 1022) - 52))"
    by (rule round_double_pos) (simp_all add: pow2_def round_half_even_near)
  then show ?thesis by (simp add: pow2_def)
qed

lemma product_25: "fmul (Fin (6980579422424269 / 281474976710656)) (Fin 5) = Fin 124"
proof -
  have "round_double ((6980579422424269 / 281474976710656) * 5) = Fin (of_int 8725724278030336 * pow2 (max 6 (- 1022) - 52))"
    by (rule round_double_pos) (simp_all add: pow2_def round_half_even_near)
  then show ?thesis by (simp add: pow2_def)
qed

lemma product_26: "fmul (Fin (7149464408450663 / 281474976710656)) (Fin 6) = Fin (5362098306337997 / 35184372088832)"
proof -
  have "round_double ((7149464408450663 / 281474976710656) * 6) = Fin (of_int 5362098306337997 * pow2 (max 7 (- 1022) - 52))"
    by (rule round_double_pos) (simp_all add: pow2_def round_half_even_near)
  then show ?thesis by (simp add: pow2_def)
qed

lemma product_27: "fmul (Fin (3884354678607053 / 140737488355328)) (Fin 2) = Fin (3884354678607053 / 70368744177664)"
proof -
  have "round_double ((3884354678607053 / 140737488355328) * 2) = Fin (of_int 7768709357214106 * pow2 (max 5 (- 1022) - 52))"
    by (rule round_double_pos) (simp_all add: pow2_def round_half_even_near)
  then show ?thesis by (simp add: pow2_def)
qed

lemma product_28: "fmul (Fin (6980579422424269 / 281474976710656)) (Fin (6980579422424269 / 281474976710656)) = Fin (5409949052378809 / 8796093022208)"
proof -
  have "round_double ((6980579422424269 / 281474976710656) * (6980579422424269 / 281474976710656)) = Fin (of_int 5409949052378809 * pow2 (max 9 (- 1022) - 52))"
    by (rule round_double_pos) (simp_all add: pow2_def round_half_even_near)
  then show ?thesis by (simp add: pow2_def)
qed

lemma sum_29: "fadd (Fin 0) (Fin (5409949052378809 / 8796093022208)) = Fin (5409949052378809 / 8796093022208)"
proof -
  have "round_double (0 + (5409949052378809 / 8796093022208)) = Fin (of_int 5409949052378809 * pow2 (max 9 (- 1022) - 52))"
    by (rule round_double_pos) (simp_all add: pow2_def round_half_even_near)
  then show ?thesis by (simp add: pow2_def)
qed

lemma product_30: "fmul (Fin (7149464408450663 / 281474976710656)) (Fin (7149464408450663 / 281474976710656)) = Fin (2837443687103857 / 4398046511104)"
proof -
  have "round_double ((7149464408450663 / 281474976710656) * (7149464408450663 / 281474976710656)) = Fin (of_int 5674887374207714 * pow2 (max 9 (- 1022) - 52))"
    by (rule round_double_pos) (simp_all add: pow2_def round_half_even_near)
  then show ?thesis by (simp add: pow2_def)
qed

lemma sum_31: "fadd (Fin (5409949052378809 / 8796093022208)) (Fin (2837443687103857 / 4398046511104)) = Fin (2771209106646631 / 2199023255552)"
proof -
  have "round_double ((5409949052378809 / 8796093022208) + (2837443687103857 / 4398046511104)) = Fin (of_int 5542418213293262 * pow2 (max 10 (- 1022) - 52))"
    by (rule round_double_pos) (simp_all add: pow2_def round_half_even_tie_up)
  then show ?thesis by (simp add: pow2_def)
qed

lemma product_32: "fmul (Fin (3884354678607053 / 140737488355328)) (Fin (3884354678607053 / 140737488355328)) = Fin (6700511820597167 / 8796093022208)"
proof -
  have "round_double ((3884354678607053 / 140737488355328) * (3884354678607053 / 140737488355328)) = Fin (of_int 6700511820597167 * pow2 (max 9 (- 1022) - 52))"
    by (rule round_double_pos) (simp_all add: pow2_def round_half_even_near)
  then show ?thesis by (simp add: pow2_def)
qed

lemma sum_33: "fadd (Fin (2771209106646631 / 2199023255552)) (Fin (6700511820597167 / 8796093022208)) = Fin (4446337061795923 / 2199023255552)"
proof -
  have "round_double ((2771209106646631 / 2199023255552) + (6700511820597167 / 8796093022208)) = Fin (of_int 8892674123591846 * pow2 (max 10 (- 1022) - 52))"
    by (rule round_double_pos) (simp_all add: pow2_def round_half_even_tie_up)
  then show ?thesis by (simp add: pow2_def)
qed

lemma product_34: "fmul (Fin (7149464408450663 / 281474976710656)) (Fin 2) = Fin (7149464408450663 / 140737488355328)"
proof -
  have "round_double ((7149464408450663 / 281474976710656) * 2) = Fin (of_int 7149464408450663 * pow2 (max 5 (- 1022) - 52))"
    by (rule round_double_pos) (simp_all add: pow2_def round_half_even_near)
  then show ?thesis by (simp add: pow2_def)
qed

lemma sum_35: "fadd (Fin (6980579422424269 / 281474976710656)) (Fin (7149464408450663 / 140737488355328)) = Fin (5319877059831399 / 70368744177664)"
proof -
  have "round_double ((6980579422424269 / 281474976710656) + (7149464408450663 / 140737488355328)) = Fin (of_int 5319877059831399 * pow2 (max 6 (- 1022) - 52))"
    by (rule round_double_pos) (simp_all add: pow2_def round_half_even_near)
  then show ?thesis by (simp add: pow2_def)
qed

lemma sum_36: "fadd (Fin (5319877059831399 / 70368744177664)) (Fin (3884354678607053 / 140737488355328)) = Fin (3631027199567463 / 35184372088832)"
proof -
  have "round_double ((5319877059831399 / 70368744177664) + (3884354678607053 / 140737488355328)) = Fin (of_int 7262054399134926 * pow2 (max 6 (- 1022) - 52))"
    by (rule round_double_pos) (simp_all add: pow2_def round_half_even_tie_up)
  then show ?thesis by (simp add: pow2_def)
qed

lemma sum_37: "fadd (Fin 0) (Fin (3884354678607053 / 140737488355328)) = Fin (3884354678607053 / 140737488355328)"
proof -
  have "round_double (0 + (3884354678607053 / 140737488355328)) = Fin (of_int 7768709357214106 * pow2 (max 4 (- 1022) - 52))"
    by (rule round_double_pos) (simp_all add: pow2_def round_half_even_near)
  then show ?thesis by (simp add: pow2_def)
qed

lemma sum_38: "fadd (Fin (3884354678607053 / 140737488355328)) (Fin (7149464408450663 / 281474976710656)) = Fin 53"
proof -
  have "round_double ((3884354678607053 / 140737488355328) + (7149464408450663 / 281474976710656)) = Fin (of_int 7459086882832384 * pow2 (max 5 (- 1022) - 52))"
    by (rule round_double_pos) (simp_all add: pow2_def round_half_even_tie_down)
  then show ?thesis by (simp add: pow2_def)
qed

lemma sum_39: "fadd (Fin 53) (Fin (6980579422424269 / 281474976710656)) = Fin (5474688297022259 / 70368744177664)"
proof -
  have "round_double (53 + (6980579422424269 / 281474976710656)) = Fin (of_int 5474688297022259 * pow2 (max 6 (- 1022) - 52))"
    by (rule round_double_pos) (simp_all add: pow2_def round_half_even_near)
  then show ?thesis by (simp add: pow2_def)
qed

lemma sum_40: "fadd (Fin 0) (Fin (3884354678607053 / 35184372088832)) = Fin (3884354678607053 / 35184372088832)"
proof -
  have "round_double (0 + (3884354678607053 / 35184372088832)) = Fin (of_int 7768709357214106 * pow2 (max 6 (- 1022) - 52))"
    by (rule round_double_pos) (simp_all add: pow2_def round_half_even_near)
  then show ?thesis by (simp add: pow2_def)
qed

lemma sum_41: "fadd (Fin (3884354678607053 / 35184372088832)) (Fin (3127890678697165 / 17592186044416)) = Fin (1267517004500173 / 4398046511104)"
proof -
  have "round_double ((3884354678607053 / 35184372088832) + (3127890678697165 / 17592186044416)) = Fin (of_int 5070068018000692 * pow2 (max 8 (- 1022) - 52))"
    by (rule round_double_pos) (simp_all add: pow2_def round_half_even_tie_up)
  then show ?thesis by (simp add: pow2_def)
qed

lemma sum_42: "fadd (Fin (1267517004500173 / 4398046511104)) (Fin (2617717283409101 / 17592186044416)) = Fin (7687785301409793 / 17592186044416)"
proof -
  have "round_double ((1267517004500173 / 4398046511104) + (2617717283409101 / 17592186044416)) = Fin (of_int 7687785301409793 * pow2 (max 8 (- 1022) - 52))"
    by (rule round_double_pos) (simp_all add: pow2_def round_half_even_near)
  then show ?thesis by (simp add: pow2_def)
qed

lemma sum_43: "fadd (Fin 0) (Fin (3884354678607053 / 70368744177664)) = Fin (3884354678607053 / 70368744177664)"
proof -
  have "round_double (0 + (3884354678607053 / 70368744177664)) = Fin (of_int 7768709357214106 * pow2 (max 5 (- 1022) - 52))"
    by (rule round_double_pos) (simp_all add: pow2_def round_half_even_near)
  then show ?thesis by (simp add: pow2_def)
qed

lemma sum_44: "fadd (Fin (3884354678607053 / 70368744177664)) (Fin (5362098306337997 / 35184372088832)) = Fin (1826068911410381 / 8796093022208)"
proof -
  have "round_double ((3884354678607053 / 70368744177664) + (5362098306337997 / 35184372088832)) = Fin (of_int 7304275645641524 * pow2 (max 7 (- 1022) - 52))"
    by (rule round_double_pos) (simp_all add: pow2_def round_half_even_tie_up)
  then show ?thesis by (simp add: pow2_def)
qed

lemma sum_45: "fadd (Fin (1826068911410381 / 8796093022208)) (Fin 124) = Fin (2916784446164173 / 8796093022208)"
proof -
  have "round_double ((1826068911410381 / 8796093022208) + 124) = Fin (of_int 5833568892328346 * pow2 (max 8 (- 1022) - 52))"
    by (rule round_double_pos) (simp_all add: pow2_def round_half_even_near)
  then show ?thesis by (simp add: pow2_def)
qed

lemma sum_46: "fadd (Fin 0) (Fin (6700511820597167 / 8796093022208)) = Fin (6700511820597167 / 8796093022208)"
proof -
  have "round_double (0 + (6700511820597167 / 8796093022208)) = Fin (of_int 6700511820597167 * pow2 (max 9 (- 1022) - 52))"
    by (rule round_double_pos) (simp_all add: pow2_def round_half_even_near)
  then show ?thesis by (simp add: pow2_def)
qed

lemma sum_47: "fadd (Fin (6700511820597167 / 8796093022208)) (Fin (2837443687103857 / 4398046511104)) = Fin (773462449675305 / 549755813888)"
proof -
  have "round_double ((6700511820597167 / 8796093022208) + (2837443687103857 / 4398046511104)) = Fin (of_int 6187699597402440 * pow2 (max 10 (- 1022) - 52))"
    by (rule round_double_pos) (simp_all add: pow2_def round_half_even_tie_down)
  then show ?thesis by (simp add: pow2_def)
qed

lemma sum_48: "fadd (Fin (773462449675305 / 549755813888)) (Fin (5409949052378809 / 8796093022208)) = Fin (2223168530897961 / 1099511627776)"
proof -
  have "round_double ((773462449675305 / 549755813888) + (5409949052378809 / 8796093022208)) = Fin (of_int 8892674123591844 * pow2 (max 10 (- 1022) - 52))"
    by (rule round_double_pos) (simp_all add: pow2_def round_half_even_tie_down)
  then show ?thesis by (simp add: pow2_def)
qed

lemma sum_49: "fadd (Fin (3884354678607053 / 140737488355328)) (Fin (7149464408450663 / 140737488355328)) = Fin (2758454771764429 / 35184372088832)"
proof -
  have "round_double ((3884354678607053 / 140737488355328) + (7149464408450663 / 140737488355328)) = Fin (of_int 5516909543528858 * pow2 (max 6 (- 1022) - 52))"
    by (rule round_double_pos) (simp_all add: pow2_def round_half_even_near)
  then show ?thesis by (simp add: pow2_def)
qed

lemma sum_50: "fadd (Fin (2758454771764429 / 35184372088832)) (Fin (6980579422424269 / 281474976710656)) = Fin (7262054399134925 / 70368744177664)"
proof -
  have "round_double ((2758454771764429 / 35184372088832) + (6980579422424269 / 281474976710656)) = Fin (of_int 7262054399134925 * pow2 (max 6 (- 1022) - 52))"
    by (rule round_double_pos) (simp_all add: pow2_def round_half_even_near)
  then show ?thesis by (simp add: pow2_def)
qed

text \<open>
  C9, as stated, has the final \<open>A\<close>, \<open>z\<close>, \<open>sumSqrs\<close> and \<open>n\<close> identical for every order of
  the accepted observations. \<open>A\<close> and \<open>z\<close> are arrays of doubles and \<^verbatim>\<open>+=\<close> rounds each
  sum. For the three example observations, all accepted, every entry with a BMI factor
  differs between the order given and its reverse: \<open>A[0][3]\<close> is 77.80000000000001 and
  77.8, \<open>A[1][3]\<close> is 437.0 and 437.00000000000006, \<open>A[2][3]\<close> is 331.59999999999997 and
  331.6, \<open>A[3][3]\<close> is 2021.9600000000005 and 2021.96, the entries of row 3 as those of
  column 3, and \<open>z[3]\<close> is 103.20000000000002 and 103.2.
\<close>

theorem accumulate_order_counterexample:
  "list_all valid order_example
   \<and> A (totals order_example) ! 0 ! 3 = Fin (1368672074255565 / 17592186044416)
   \<and> A (totals (rev order_example)) ! 0 ! 3 = Fin (5474688297022259 / 70368744177664)
   \<and> A (totals order_example) ! 1 ! 3 = Fin 437
   \<and> A (totals (rev order_example)) ! 1 ! 3 = Fin (7687785301409793 / 17592186044416)
   \<and> A (totals order_example) ! 2 ! 3 = Fin (5833568892328345 / 17592186044416)
   \<and> A (totals (rev order_example)) ! 2 ! 3 = Fin (2916784446164173 / 8796093022208)
   \<and> A (totals order_example) ! 3 ! 0 = Fin (1368672074255565 / 17592186044416)
   \<and> A (totals (rev order_example)) ! 3 ! 0 = Fin (5474688297022259 / 70368744177664)
   \<and> A (totals order_example) ! 3 ! 1 = Fin 437
   \<and> A (totals (rev order_example)) ! 3 ! 1 = Fin (7687785301409793 / 17592186044416)
   \<and> A (totals order_example) ! 3 ! 2 = Fin (5833568892328345 / 17592186044416)
   \<and> A (totals (rev order_example)) ! 3 ! 2 = Fin (2916784446164173 / 8796093022208)
   \<and> A (totals order_example) ! 3 ! 3 = Fin (4446337061795923 / 2199023255552)
   \<and> A (totals (rev order_example)) ! 3 ! 3 = Fin (2223168530897961 / 1099511627776)
   \<and> z (totals order_example) ! 3 = Fin (3631027199567463 / 35184372088832)
   \<and> z (totals (rev order_example)) ! 3 = Fin (7262054399134925 / 70368744177664)"
  by (simp add: order_example_def valid_def totals_def accumulate_ob_def accumulate_def
      mat_add_def vec_add_def scale_def outer_def design_def init_def q_def
      np_float_numeral np_float_one
      product_1 sum_2 product_3 sum_4 product_5 sum_6 product_7 sum_8 product_9 sum_10
      product_11 sum_12 product_13 sum_14 product_15 sum_16 product_17 sum_18
      product_19 product_20 product_21 product_22 product_23 product_24 product_25
      product_26 product_27 product_28 sum_29 product_30 sum_31 product_32 sum_33
      product_34 sum_35 sum_36 sum_37 sum_38 sum_39 sum_40 sum_41 sum_42 sum_43 sum_44
      sum_45 sum_46 sum_47 sum_48 sum_49 sum_50
      del: fmul.simps fadd.simps)

lemma sumSqrs_totals:
  "sumSqrs (totals obs) = sum_list (map (\<lambda>ob. (snd (snd (snd ob))) ^ 2) obs)"
proof (induction obs rule: rev_induct)
  case Nil
  then show ?case by (simp add: totals_def init_def)
next
  case (snoc ob obs)
  then show ?case by (cases ob) (simp add: totals_snoc accumulate_ob_fields)
qed

lemma map2_map_same: "map2 f (map g xs) (map h xs) = map (\<lambda>x. f (g x) (h x)) xs"
  by (induction xs) simp_all

lemma int_block_mat_add: "int_block (mat_add M N) = mat_add (int_block M) (int_block N)"
  by (simp add: int_block_def mat_add_def take_map take_zip zip_map_map split_def)

lemma int_block_outer: "int_block (outer x) = outer (take 3 x)"
  by (simp add: int_block_def outer_def take_map)

lemma take_vec_add: "take 3 (vec_add u v) = vec_add (take 3 u) (take 3 v)"
  by (simp add: vec_add_def take_map take_zip)

lemma take_scale: "take 3 (scale x y) = scale (take 3 x) y"
  by (simp add: scale_def take_map)

lemma exact_mult:
  assumes "\<bar>a\<bar> \<le> 99" and "\<bar>c\<bar> \<le> 99"
  shows "fmul (exact a) (exact c) = exact (a * c)"
proof -
  have "\<bar>a * c\<bar> \<le> 99 * 99"
    unfolding abs_mult using assms by (intro mult_mono) simp_all
  then have "\<bar>a * c\<bar> \<le> 2 ^ 53" by simp
  then have "round_double (of_int (a * c)) = Fin (of_int (a * c))"
    by (rule round_double_int)
  then show ?thesis by (simp add: exact_def)
qed

lemma exact_step:
  assumes "\<bar>s\<bar> \<le> 9801 * k" and "k < 2 ^ 39" and "\<bar>a\<bar> \<le> 99" and "\<bar>c\<bar> \<le> 99"
  shows "fadd (exact s) (fmul (exact a) (exact c)) = exact (s + a * c)"
proof -
  have p: "\<bar>a * c\<bar> \<le> 9801"
  proof -
    have "\<bar>a * c\<bar> \<le> 99 * 99"
      unfolding abs_mult using assms(3,4) by (intro mult_mono) simp_all
    then show ?thesis by simp
  qed
  have "\<bar>s + a * c\<bar> \<le> 9801 * k + 9801" using assms(1) p by linarith
  also have "\<dots> \<le> 9801 * 2 ^ 39" using assms(2) by simp
  also have "\<dots> \<le> 2 ^ 53" by simp
  finally have "round_double (of_int (s + a * c)) = Fin (of_int (s + a * c))"
    by (rule round_double_int)
  then show ?thesis
    using exact_mult [OF assms(3,4)] by (simp add: exact_def)
qed

lemma feature_range:
  assumes "within_range ob" and "g \<in> set int_features \<or> g = health_of"
  shows "\<bar>g ob\<bar> \<le> 99"
  using assms
  by (cases ob)
     (auto simp add: within_range_def int_features_def one_of_def income_of_def
        education_of_def health_of_def)

lemma isum_snoc: "isum g h (obs @ [ob]) = isum g h obs + g ob * h ob"
  by (simp add: isum_def)

lemma isum_bound:
  assumes "list_all within_range obs"
    and "g \<in> set int_features \<or> g = health_of" and "h \<in> set int_features \<or> h = health_of"
  shows "\<bar>isum g h obs\<bar> \<le> 9801 * int (length obs)"
  using assms(1)
proof (induction obs rule: rev_induct)
  case Nil
  then show ?case by (simp add: isum_def)
next
  case (snoc ob obs)
  then have w: "within_range ob" and l: "list_all within_range obs" by simp_all
  have "\<bar>g ob * h ob\<bar> \<le> 99 * 99"
    unfolding abs_mult
    using feature_range [OF w assms(2)] feature_range [OF w assms(3)]
    by (intro mult_mono) simp_all
  then show ?case using snoc.IH [OF l] by (simp add: isum_snoc)
qed

lemma isum_mset: "mset obs = mset obs' \<Longrightarrow> isum g h obs = isum g h obs'"
proof -
  assume "mset obs = mset obs'"
  then have "mset (map (\<lambda>ob. g ob * h ob) obs) = mset (map (\<lambda>ob. g ob * h ob) obs')"
    by (metis mset_map)
  then show ?thesis unfolding isum_def by (metis sum_mset_sum_list)
qed

lemma design_int:
  assumes "within_range (education, income, bmi, y)"
  shows "take 3 (design income education bmi)
     = map (\<lambda>g. exact (g (education, income, bmi, y))) int_features"
proof -
  have "\<bar>income\<bar> \<le> 2 ^ 53" "\<bar>education\<bar> \<le> 2 ^ 53"
    using assms by (simp_all add: within_range_def)
  then have "np_float income = Fin (of_int income)" "np_float education = Fin (of_int education)"
    by (simp_all add: np_float_small)
  then show ?thesis
    by (simp add: design_def int_features_def exact_def one_of_def income_of_def
        education_of_def)
qed

lemma init_block: "int_block (A init) = exact_block []" "take 3 (z init) = exact_z []"
  by (simp_all add: init_def q_def int_block_def exact_block_def exact_z_def int_features_def
      isum_def exact_def eval_nat_numeral)

lemma exact_totals:
  assumes "list_all within_range obs" and "length obs \<le> 2 ^ 39"
  shows "int_block (A (totals obs)) = exact_block obs \<and> take 3 (z (totals obs)) = exact_z obs"
  using assms
proof (induction obs rule: rev_induct)
  case Nil
  then show ?case by (simp add: totals_def init_block)
next
  case (snoc ob obs)
  obtain education income bmi y where ob: "ob = (education, income, bmi, y)"
    by (cases ob) auto
  have w: "within_range ob" and l: "list_all within_range obs"
    using snoc.prems(1) by simp_all
  have len: "int (length obs) < 2 ^ 39"
  proof -
    have "length obs < 2 ^ 39" using snoc.prems(2) by simp
    then have "int (length obs) < int (2 ^ 39)" by (simp only: of_nat_less_iff)
    then show ?thesis by simp
  qed
  have ih: "int_block (A (totals obs)) = exact_block obs" "take 3 (z (totals obs)) = exact_z obs"
    using snoc.IH [OF l] snoc.prems(2) by simp_all
  have x: "take 3 (design income education bmi) = map (\<lambda>g. exact (g ob)) int_features"
    using design_int [of education income bmi y] w by (simp add: ob)
  have yf: "np_float y = exact (health_of ob)"
  proof -
    have "\<bar>y\<bar> \<le> 2 ^ 53" using w by (simp add: ob within_range_def)
    then show ?thesis by (simp add: np_float_small exact_def health_of_def ob)
  qed
  have entry: "fadd (exact (isum g h obs)) (fmul (exact (g ob)) (exact (h ob)))
      = exact (isum g h (obs @ [ob]))"
    if "g \<in> set int_features \<or> g = health_of" "h \<in> set int_features \<or> h = health_of" for g h
    unfolding isum_snoc
    using isum_bound [OF l that] len feature_range [OF w that(1)] feature_range [OF w that(2)]
    by (rule exact_step)
  have "int_block (A (totals (obs @ [ob])))
      = mat_add (exact_block obs) (outer (map (\<lambda>g. exact (g ob)) int_features))"
    by (simp add: totals_snoc ob accumulate_ob_fields int_block_mat_add int_block_outer ih
        x [unfolded ob])
  also have "\<dots> = map (\<lambda>g. map (\<lambda>h. fadd (exact (isum g h obs))
                 (fmul (exact (g ob)) (exact (h ob)))) int_features) int_features"
    by (simp add: mat_add_def outer_def exact_block_def map2_map_same o_def)
  also have "\<dots> = exact_block (obs @ [ob])"
    unfolding exact_block_def
    by (intro list.map_cong0) (simp add: entry)
  finally have a: "int_block (A (totals (obs @ [ob]))) = exact_block (obs @ [ob])" .
  have "take 3 (z (totals (obs @ [ob])))
      = vec_add (exact_z obs) (scale (map (\<lambda>g. exact (g ob)) int_features) y)"
    by (simp add: totals_snoc ob accumulate_ob_fields take_vec_add take_scale ih
        x [unfolded ob])
  also have "\<dots> = map (\<lambda>g. fadd (exact (isum g health_of obs))
                 (fmul (exact (g ob)) (exact (health_of ob)))) int_features"
    by (simp add: vec_add_def scale_def exact_z_def map2_map_same o_def yf)
  also have "\<dots> = exact_z (obs @ [ob])"
    unfolding exact_z_def
    by (intro list.map_cong0) (simp add: entry)
  finally have b: "take 3 (z (totals (obs @ [ob]))) = exact_z (obs @ [ob])" .
  show ?case using a b by simp
qed

text \<open>
  Every observation that a run decodes from a record is within the range of the exact
  sums: \<^verbatim>\<open>getEducation\<close> reads one character, \<^verbatim>\<open>getIncome\<close> a slice of two in each of
  the four layouts, and \<^verbatim>\<open>getHlth\<close> returns a rating between -1 and 6.
\<close>

lemma foldl_digits_bound:
  assumes "list_all is_digit ds" and "0 \<le> a"
  shows "0 \<le> foldl (\<lambda>a c. 10 * a + digit_val c) a ds
    \<and> foldl (\<lambda>a c. 10 * a + digit_val c) a ds < (a + 1) * 10 ^ length ds"
  using assms
proof (induction ds arbitrary: a)
  case Nil
  then show ?case by simp
next
  case (Cons d ds)
  then have d: "0 \<le> digit_val d \<and> digit_val d \<le> 9" and r: "list_all is_digit ds"
    by (simp_all add: digit_val_range)
  have nn: "0 \<le> 10 * a + digit_val d" using d Cons.prems(2) by simp
  have ih: "0 \<le> foldl (\<lambda>a c. 10 * a + digit_val c) (10 * a + digit_val d) ds
    \<and> foldl (\<lambda>a c. 10 * a + digit_val c) (10 * a + digit_val d) ds
        < (10 * a + digit_val d + 1) * 10 ^ length ds"
    using Cons.IH [OF r nn] .
  have "(10 * a + digit_val d + 1) * 10 ^ length ds \<le> (10 * a + 10) * 10 ^ length ds"
    using d by (intro mult_right_mono) simp_all
  also have "\<dots> = (a + 1) * 10 ^ length (d # ds)"
    by (simp add: algebra_simps)
  finally have le: "(10 * a + digit_val d + 1) * 10 ^ length ds \<le> (a + 1) * 10 ^ length (d # ds)" .
  have "foldl (\<lambda>a c. 10 * a + digit_val c) a (d # ds)
      = foldl (\<lambda>a c. 10 * a + digit_val c) (10 * a + digit_val d) ds"
    by simp
  moreover have "foldl (\<lambda>a c. 10 * a + digit_val c) (10 * a + digit_val d) ds
      < (a + 1) * 10 ^ length (d # ds)"
    using ih le by (meson order.strict_trans2)
  ultimately show ?case using ih by (simp only: simp_thms)
qed

lemma digits_value_bound:
  "list_all is_digit ds \<Longrightarrow> 0 \<le> digits_value ds \<and> digits_value ds < 10 ^ length ds"
  using foldl_digits_bound [of ds 0] by (simp add: digits_value_def)

lemma length_strip_sign: "length (snd (strip_sign t)) \<le> length t"
  by (cases t) (simp_all add: strip_sign_def)

lemma py_int_bound:
  assumes "py_int s = Some v"
  shows "\<bar>v\<bar> < 10 ^ length s"
proof -
  define t where "t = dropWhile ascii_space (map to_ascii s)"
  define u where "u = snd (strip_sign t)"
  define ds where "ds = filter is_digit (takeWhile digit_or_underscore u)"
  have v: "v = digits_value ds \<or> v = - digits_value ds"
    using assms
    by (auto simp add: py_int_def Let_def t_def u_def ds_def split: prod.splits if_splits)
  have "length ds \<le> length (takeWhile digit_or_underscore u)"
    unfolding ds_def by (rule length_filter_le)
  also have "\<dots> \<le> length u" by (rule length_takeWhile_le)
  also have "\<dots> \<le> length t" unfolding u_def by (rule length_strip_sign)
  also have "\<dots> \<le> length (map to_ascii s)" unfolding t_def by (rule length_dropWhile_le)
  finally have l: "length ds \<le> length s" by simp
  have "list_all is_digit ds" by (simp add: ds_def list_all_iff)
  then have b: "0 \<le> digits_value ds \<and> digits_value ds < 10 ^ length ds"
    by (rule digits_value_bound)
  have "(10 :: int) ^ length ds \<le> 10 ^ length s"
    using l by (intro power_increasing) simp_all
  then have "digits_value ds < 10 ^ length s"
    using b by (meson order.strict_trans2)
  then show ?thesis using v b by auto
qed

lemma length_py_slice:
  "0 \<le> i \<Longrightarrow> 0 \<le> j \<Longrightarrow> length (py_slice s i j) \<le> nat (j - i)"
  by (auto simp add: py_slice_def clamp_bound_def Let_def min_def max_def)

lemma py_index_length: "py_index s i = Inr c \<Longrightarrow> length c = 1"
  by (auto simp add: py_index_def Let_def split: if_splits)

lemma getEducation_range:
  assumes "getEducation c = Inr v" and "length c = 1"
  shows "\<bar>v\<bar> \<le> 99"
proof (cases "c = '' ''")
  case True
  then show ?thesis using assms by (simp add: getEducation_def)
next
  case False
  then have "py_int c = Some v"
    using assms(1) by (simp add: getEducation_def int_of_str_def split: option.splits)
  then have "\<bar>v\<bar> < 10 ^ length c" by (rule py_int_bound)
  then show ?thesis using assms(2) by simp
qed

lemma getIncome_range:
  assumes "getIncome s = Inr v" and "length s \<le> 2"
  shows "\<bar>v\<bar> \<le> 99"
proof (cases "s = ''  ''")
  case True
  then show ?thesis using assms by (simp add: getIncome_def)
next
  case False
  then have "py_int s = Some v"
    using assms(1) by (simp add: getIncome_def int_of_str_def split: option.splits)
  then have "\<bar>v\<bar> < 10 ^ length s" by (rule py_int_bound)
  moreover have "(10 :: int) ^ length s \<le> 10 ^ 2"
    using assms(2) by (intro power_increasing) simp_all
  ultimately show ?thesis by simp
qed

lemma getHlth_range: "getHlth c = Inr v \<Longrightarrow> \<bar>v\<bar> \<le> 99"
  by (auto simp add: getHlth_def split: sum.splits if_splits)

lemma decode_record_within_range:
  assumes "decode_record flds yr r = Inr ob"
    and "income_range flds = (s, e)" and "1 \<le> s" and "s \<le> e" and "e - s \<le> 1"
  shows "within_range ob"
proof -
  obtain education income bmi y where ob: "ob = (education, income, bmi, y)"
    by (cases ob) auto
  from assms(1) obtain c c' where
    c: "py_index r (education_pos flds - 1) = Inr c" "getEducation c = Inr education"
    and i: "getIncome (py_slice r (s - 1) e) = Inr income"
    and h: "py_index r (genhlth_pos flds - 1) = Inr c'" "getHlth c' = Inr y"
    unfolding decode_record_def Let_def assms(2) ob
    by (auto split: sum.splits prod.splits)
  have "\<bar>education\<bar> \<le> 99"
    using c(2) py_index_length [OF c(1)] by (rule getEducation_range)
  moreover have "length (py_slice r (s - 1) e) \<le> 2"
    using length_py_slice [of "s - 1" e r] assms(3,4,5) by simp
  then have "\<bar>income\<bar> \<le> 99"
    using i by (intro getIncome_range)
  moreover have "\<bar>y\<bar> \<le> 99" using h(2) by (rule getHlth_range)
  ultimately show ?thesis by (simp add: within_range_def ob)
qed

lemma fieldDict_income_width:
  "fieldDict yr = Some (Some flds) \<Longrightarrow>
   1 \<le> fst (income_range flds) \<and> fst (income_range flds) \<le> snd (income_range flds)
   \<and> snd (income_range flds) - fst (income_range flds) \<le> 1"
  by (auto simp add: fieldDict_def split: if_splits)

lemma decoded_within_range:
  assumes "fieldDict yr = Some (Some flds)"
  shows "list_all within_range (decoded flds yr' records)"
proof (induction records)
  case Nil
  then show ?case by simp
next
  case (Cons r rs)
  show ?case
  proof (cases "decode_record flds yr' r")
    case (Inl e)
    then show ?thesis by simp
  next
    case (Inr ob)
    obtain s e where se: "income_range flds = (s, e)" by (cases "income_range flds")
    have "1 \<le> s \<and> s \<le> e \<and> e - s \<le> 1"
      using fieldDict_income_width [OF assms] by (simp add: se)
    then have "within_range ob"
      using decode_record_within_range [OF Inr se] by simp
    then show ?thesis using Inr Cons by simp
  qed
qed

lemma run_observations_within_range: "list_all within_range (run_observations ev fileList)"
proof -
  have "list_all within_range (file_observations ev name)" for name
    by (auto simp add: file_observations_def decoded_within_range
        split: option.splits zip.splits list.splits)
  then show ?thesis
    by (simp add: run_observations_def list_all_iff)
qed

text \<open>
  C9, amended: for every finite multiset of observations, applying the accumulate update
  to the zero initial state in any order yields identical final values of \<open>sumSqrs\<close> and
  \<open>n\<close>; and when education, income and health rating have at most two digits (as all
  observations of a run have, \<open>run_observations_within_range\<close>) and there are at most
  \<open>2\<^sup>3\<^sup>9\<close> observations, also identical values of the entries of \<open>A\<close> and \<open>z\<close>
  built from the predictors 1, income and education alone, \<open>A[i][j]\<close> and \<open>z[i]\<close> for
  \<open>i, j < 3\<close>: these are sums of integers that the doubles hold exactly. The entries with a
  BMI factor (row 3 and column 3 of \<open>A\<close>, and \<open>z[3]\<close>) are left out.
\<close>

theorem accumulate_order:
  assumes "mset obs = mset obs'"
  shows "n (totals obs) = n (totals obs')
    \<and> sumSqrs (totals obs) = sumSqrs (totals obs')
    \<and> (list_all within_range obs \<and> length obs \<le> 2 ^ 39 \<longrightarrow>
         int_block (A (totals obs)) = int_block (A (totals obs'))
         \<and> take 3 (z (totals obs)) = take 3 (z (totals obs')))"
proof -
  have len: "length obs = length obs'"
    using assms by (rule mset_eq_length)
  then have a: "n (totals obs) = n (totals obs')"
    by (simp add: n_totals)
  have "mset (map (\<lambda>ob. (snd (snd (snd ob))) ^ 2) obs)
      = mset (map (\<lambda>ob. (snd (snd (snd ob))) ^ 2) obs')"
    using assms by (metis mset_map)
  then have "sum_list (map (\<lambda>ob. (snd (snd (snd ob))) ^ 2) obs)
      = sum_list (map (\<lambda>ob. (snd (snd (snd ob))) ^ 2) obs')"
    by (metis sum_mset_sum_list)
  then have s: "sumSqrs (totals obs) = sumSqrs (totals obs')"
    by (simp add: sumSqrs_totals)
  have e: "int_block (A (totals obs)) = int_block (A (totals obs'))
         \<and> take 3 (z (totals obs)) = take 3 (z (totals obs'))"
    if r: "list_all within_range obs" and b: "length obs \<le> 2 ^ 39"
  proof -
    have "set obs = set obs'" using assms by (rule mset_eq_setD)
    then have r': "list_all within_range obs'"
      using r by (simp add: list_all_iff)
    have b': "length obs' \<le> 2 ^ 39" using b len by simp
    have "exact_block obs = exact_block obs'" "exact_z obs = exact_z obs'"
      by (simp_all add: exact_block_def exact_z_def isum_mset [OF assms])
    then show ?thesis
      using exact_totals [OF r b] exact_totals [OF r' b'] by simp
  qed
  show ?thesis using a s e by blast
qed

theorem accumulate_order_witness:
  "n (totals order_example) = n (totals (rev order_example))
   \<and> sumSqrs (totals order_example) = sumSqrs (totals (rev order_example))
   \<and> int_block (A (totals order_example)) = int_block (A (totals (rev order_example)))
   \<and> take 3 (z (totals order_example)) = take 3 (z (totals (rev order_example)))"
proof -
  have m: "mset order_example = mset (rev order_example)"
    by simp
  have r: "list_all within_range order_example"
    by (simp add: order_example_def within_range_def)
  have l: "length order_example \<le> 2 ^ 39"
    by (simp add: order_example_def)
  show ?thesis
    using accumulate_order [OF m] r l by simp
qed

end
